theory Spec2Isabelle
  imports Complex_Main "HOL-Library.Word" "HOL-Library.Sublist"
begin

section \<open>JavaScript values used by EsriImageServerTerrainProvider.js\<close>

subsection \<open>Numbers\<close>

text \<open>
  A JavaScript number is an IEEE double. A finite double is modelled by the real number it
  stands for, next to the three special values \<open>Infinity\<close>, \<open>-Infinity\<close> and \<open>NaN\<close>.
  Every arithmetic operation rounds its exact result to the nearest double, ties to the
  even significand, with gradual underflow and with overflow to infinity; a division by
  zero gives an infinity or \<open>NaN\<close> and not HOL's \<open>x / 0 = 0\<close>. The sign of zero is not
  modelled.
\<close>

datatype jsnum = Fin real | PosInf | NegInf | NaN

text \<open>Rounding a real to the nearest integer, ties to the even one.\<close>

definition round_even :: "real \<Rightarrow> int" where
  "round_even q =
     (let f = \<lfloor>q\<rfloor> in
      if q - of_int f < 1 / 2 then f
      else if 1 / 2 < q - of_int f then f + 1
      else if even f then f else f + 1)"

text \<open>
  The exponent of the last place of a double near \<open>x\<close>: 53 significant bits, and no
  exponent below \<open>-1074\<close> (the subnormal numbers).
\<close>

definition ulp_exponent :: "real \<Rightarrow> int" where
  "ulp_exponent x = max (\<lfloor>log 2 \<bar>x\<bar>\<rfloor> - 52) (- 1074)"

text \<open>The nearest multiple of the last place.\<close>

definition round_double :: "real \<Rightarrow> real" where
  "round_double x =
     of_int (round_even (x / 2 powr of_int (ulp_exponent x))) * 2 powr of_int (ulp_exponent x)"

text \<open>The double that an exact result becomes: an infinity from \<open>2^1024\<close> on.\<close>

definition rounded :: "real \<Rightarrow> jsnum" where
  "rounded x =
     (let y = round_double x in
      if 2 ^ 1024 \<le> y then PosInf else if y \<le> - (2 ^ 1024) then NegInf else Fin y)"

fun jadd :: "jsnum \<Rightarrow> jsnum \<Rightarrow> jsnum" where
  "jadd NaN _ = NaN"
| "jadd _ NaN = NaN"
| "jadd (Fin a) (Fin b) = rounded (a + b)"
| "jadd PosInf NegInf = NaN"
| "jadd NegInf PosInf = NaN"
| "jadd PosInf _ = PosInf"
| "jadd _ PosInf = PosInf"
| "jadd NegInf _ = NegInf"
| "jadd _ NegInf = NegInf"

fun jmul :: "jsnum \<Rightarrow> jsnum \<Rightarrow> jsnum" where
  "jmul NaN _ = NaN"
| "jmul _ NaN = NaN"
| "jmul (Fin a) (Fin b) = rounded (a * b)"
| "jmul PosInf (Fin b) = (if b = 0 then NaN else if 0 < b then PosInf else NegInf)"
| "jmul NegInf (Fin b) = (if b = 0 then NaN else if 0 < b then NegInf else PosInf)"
| "jmul (Fin a) PosInf = (if a = 0 then NaN else if 0 < a then PosInf else NegInf)"
| "jmul (Fin a) NegInf = (if a = 0 then NaN else if 0 < a then NegInf else PosInf)"
| "jmul PosInf PosInf = PosInf"
| "jmul NegInf NegInf = PosInf"
| "jmul PosInf NegInf = NegInf"
| "jmul NegInf PosInf = NegInf"

text \<open>Division; a zero divisor is read as \<open>+0\<close>.\<close>

fun jdiv :: "jsnum \<Rightarrow> jsnum \<Rightarrow> jsnum" where
  "jdiv NaN _ = NaN"
| "jdiv _ NaN = NaN"
| "jdiv (Fin a) (Fin b) =
     (if b = 0 then (if a = 0 then NaN else if 0 < a then PosInf else NegInf)
      else rounded (a / b))"
| "jdiv (Fin a) _ = Fin 0"
| "jdiv PosInf (Fin b) = (if 0 \<le> b then PosInf else NegInf)"
| "jdiv NegInf (Fin b) = (if 0 \<le> b then NegInf else PosInf)"
| "jdiv _ _ = NaN"

text \<open>The comparisons \<open><\<close> and \<open><=\<close>: false as soon as one side is \<open>NaN\<close>.\<close>

fun jless :: "jsnum \<Rightarrow> jsnum \<Rightarrow> bool" where
  "jless NaN _ = False"
| "jless _ NaN = False"
| "jless (Fin a) (Fin b) = (a < b)"
| "jless NegInf NegInf = False"
| "jless NegInf _ = True"
| "jless PosInf _ = False"
| "jless (Fin a) PosInf = True"
| "jless (Fin a) NegInf = False"

fun jle :: "jsnum \<Rightarrow> jsnum \<Rightarrow> bool" where
  "jle NaN _ = False"
| "jle _ NaN = False"
| "jle (Fin a) (Fin b) = (a \<le> b)"
| "jle NegInf _ = True"
| "jle _ PosInf = True"
| "jle PosInf _ = False"
| "jle (Fin a) NegInf = False"

text \<open>
  An integer-valued number, such as a tile index or a tile count, taken exactly: these
  integers are far below \<open>2^53\<close>.
\<close>

definition num :: "int \<Rightarrow> jsnum" where
  "num i = Fin (of_int i)"

text \<open>
  \<open>a << n\<close>: the left operand is taken as a 32-bit integer, the shift count is
  the right operand's low five bits, the result is a signed 32-bit integer.
\<close>

definition shl32 :: "int \<Rightarrow> nat \<Rightarrow> int" where
  "shl32 a n = sint (push_bit (n mod 32) (word_of_int a :: 32 word))"

text \<open>The truthiness of a value that is \<open>undefined\<close> or a string.\<close>

fun truthy :: "string option \<Rightarrow> bool" where
  "truthy None = False"
| "truthy (Some s) = (s \<noteq> [])"

text \<open>The same value, converted to a string by a concatenation.\<close>

fun toString :: "string option \<Rightarrow> string" where
  "toString None = ''undefined''"
| "toString (Some s) = s"

subsection \<open>Errors\<close>

datatype error = DeveloperError string

subsection \<open>Constants of Core/Math\<close>

text \<open>
  Modelled from the spec: the constants \<open>PI\<close>, \<open>TWO_PI\<close> and \<open>PI_OVER_TWO\<close> of
  Core/Math, which bound the global extent (longitude \<open>-\<pi>..\<pi>\<close>, latitude
  \<open>-\<pi>/2..\<pi>/2\<close>). As doubles: \<open>PI\<close> is \<open>Math.PI\<close>, the double nearest to
  \<open>\<pi>\<close>, which is \<open>7074237752028440 / 2^51\<close>; its double and its half are exact.
\<close>

definition PI :: real where
  "PI = 7074237752028440 / 2 ^ 51"

definition TWO_PI :: real where
  "TWO_PI = 2 * PI"

definition PI_OVER_TWO :: real where
  "PI_OVER_TWO = PI / 2"

section \<open>Data model\<close>

record Cartesian3 =
  c3_x :: real
  c3_y :: real
  c3_z :: real

text \<open>\<open>getRadii\<close> of an ellipsoid returns its radii.\<close>

record Ellipsoid =
  getRadii :: Cartesian3

record Extent =
  west :: real
  south :: real
  east :: real
  north :: real

text \<open>
  The tiling scheme is used through four members: the two level-zero tile counts, the
  ellipsoid and \<open>getLevelMaximumGeometricError\<close>. Modelled from the spec: the fifth
  field is the overall extent of the scheme, which the function never reads (the source
  names it where it constructs a scheme from an extent).
\<close>

record TilingScheme =
  numberOfLevelZeroTilesX :: int
  numberOfLevelZeroTilesY :: int
  ellipsoid :: Ellipsoid
  getLevelMaximumGeometricError :: "nat \<Rightarrow> real"
  extent :: Extent

text \<open>
  A tile: its address, its stored extent and the centre of its bounding sphere
  (\<open>get3DBoundingSphere().center\<close>). Whatever else a tile carries (mesh, flags) is the
  record's extension.
\<close>

record Tile =
  tile_level :: nat
  tile_x :: int
  tile_y :: int
  tile_extent :: Extent
  boundingSphereCenter :: Cartesian3

datatype Projections = WGS84 | MERCATOR

record description =
  description_url :: "string option"
  description_token :: "string option"
  description_proxy :: "(string \<Rightarrow> string) option"

record provider =
  url :: string
  token :: "string option"
  tilingScheme :: TilingScheme
  projection :: Projections
  maxLevel :: nat
  proxy :: "(string \<Rightarrow> string) option"

section \<open>The constructor\<close>

text \<open>\<open>defaultValue(a, b)\<close>: \<open>b\<close> when \<open>a\<close> is \<open>undefined\<close>.\<close>

definition defaultValue :: "'a option \<Rightarrow> 'a \<Rightarrow> 'a" where
  "defaultValue a b = (case a of None \<Rightarrow> b | Some v \<Rightarrow> v)"

text \<open>The empty object \<open>{}\<close>.\<close>

definition empty_description :: description where
  "empty_description =
     \<lparr>description_url = None, description_token = None, description_proxy = None\<rparr>"

text \<open>
  The constructor, up to the metadata request it starts. The argument is \<open>None\<close> when the
  caller passes no description. \<open>geographic\<close> is the scheme that
  \<open>new GeographicTilingScheme()\<close> returns.
\<close>

definition EsriImageServerTerrainProvider ::
  "TilingScheme \<Rightarrow> description option \<Rightarrow> error + provider" where
  "EsriImageServerTerrainProvider geographic arg =
     (let d = defaultValue arg empty_description in
      case description_url d of
        None \<Rightarrow> Inl (DeveloperError ''description.url is required.'')
      | Some u \<Rightarrow>
          Inr \<lparr>url = u, token = description_token d, tilingScheme = geographic,
               projection = WGS84, maxLevel = 25, proxy = description_proxy d\<rparr>)"

section \<open>computeDesiredGranularity\<close>

definition computeDesiredGranularity :: "TilingScheme \<Rightarrow> 'a Tile_scheme \<Rightarrow> jsnum" where
  "computeDesiredGranularity scheme tile =
     (let ell = ellipsoid scheme;
          lv = tile_level tile;
          maxErrorMeters = getLevelMaximumGeometricError scheme lv;
          maxErrorRadians = jdiv (Fin maxErrorMeters) (Fin (c3_x (getRadii ell)))
      in maxErrorRadians)"

section \<open>createTileEllipsoidGeometry\<close>

text \<open>The locals of the function, each as a function of the scheme and the tile.\<close>

definition tilesInXDirection :: "TilingScheme \<Rightarrow> 'a Tile_scheme \<Rightarrow> int" where
  "tilesInXDirection scheme tile = shl32 (numberOfLevelZeroTilesX scheme) (tile_level tile)"

definition tilesInYDirection :: "TilingScheme \<Rightarrow> 'a Tile_scheme \<Rightarrow> int" where
  "tilesInYDirection scheme tile = shl32 (numberOfLevelZeroTilesY scheme) (tile_level tile)"

definition xDelta :: "TilingScheme \<Rightarrow> 'a Tile_scheme \<Rightarrow> jsnum" where
  "xDelta scheme tile = jdiv (Fin TWO_PI) (num (tilesInXDirection scheme tile))"

definition yDelta :: "TilingScheme \<Rightarrow> 'a Tile_scheme \<Rightarrow> jsnum" where
  "yDelta scheme tile = jdiv (Fin PI) (num (tilesInYDirection scheme tile))"

definition tileY :: "TilingScheme \<Rightarrow> 'a Tile_scheme \<Rightarrow> int" where
  "tileY scheme tile = tilesInYDirection scheme tile - tile_y tile - 1"

definition xStart :: "TilingScheme \<Rightarrow> 'a Tile_scheme \<Rightarrow> jsnum" where
  "xStart scheme tile = jadd (Fin (- PI)) (jmul (xDelta scheme tile) (num (tile_x tile)))"

definition xStop :: "TilingScheme \<Rightarrow> 'a Tile_scheme \<Rightarrow> jsnum" where
  "xStop scheme tile = jadd (Fin (- PI)) (jmul (xDelta scheme tile) (num (tile_x tile + 1)))"

definition yStart :: "TilingScheme \<Rightarrow> 'a Tile_scheme \<Rightarrow> jsnum" where
  "yStart scheme tile =
     jadd (Fin (- PI_OVER_TWO)) (jmul (yDelta scheme tile) (num (tileY scheme tile)))"

definition yStop :: "TilingScheme \<Rightarrow> 'a Tile_scheme \<Rightarrow> jsnum" where
  "yStop scheme tile =
     jadd (Fin (- PI_OVER_TWO)) (jmul (yDelta scheme tile) (num (tileY scheme tile + 1)))"

text \<open>
  The conversion of a number to a string, which the concatenations apply to the four
  bounds, is a parameter \<open>str\<close> of the model.
\<close>

definition bbox :: "(jsnum \<Rightarrow> string) \<Rightarrow> TilingScheme \<Rightarrow> 'a Tile_scheme \<Rightarrow> string" where
  "bbox str scheme tile =
     str (xStart scheme tile) @ ''%2C'' @ str (yStart scheme tile) @ ''%2C'' @
     str (xStop scheme tile) @ ''%2C'' @ str (yStop scheme tile)"

text \<open>The URL handed to \<open>loadImage\<close>.\<close>

definition requestUrl :: "(jsnum \<Rightarrow> string) \<Rightarrow> provider \<Rightarrow> 'a Tile_scheme \<Rightarrow> string" where
  "requestUrl str this tile =
     (let u0 = url this @ ''/exportImage?format=tiff&f=image&size=256%2C256&bbox='' @
               bbox str (tilingScheme this) tile;
          u1 = (if truthy (token this) then u0 @ ''&token='' @ toString (token this) else u0)
      in case proxy this of None \<Rightarrow> u1 | Some getURL \<Rightarrow> getURL u1)"

text \<open>
  The argument of \<open>HeightmapTessellator.computeBuffers\<close>, built once the image has
  arrived and its pixels are read.
\<close>

record 'p heightmapDescription =
  heightmap :: 'p
  heightScale :: real
  heightOffset :: real
  bytesPerHeight :: nat
  strideBytes :: nat
  hm_ellipsoid :: Ellipsoid
  hm_extent :: Extent
  generateTextureCoords :: bool
  interleave :: bool
  relativeToCenter :: Cartesian3

definition computeBuffersArgument ::
  "provider \<Rightarrow> 'a Tile_scheme \<Rightarrow> 'p \<Rightarrow> 'p heightmapDescription" where
  "computeBuffersArgument this tile pixels =
     \<lparr>heightmap = pixels, heightScale = 1000, heightOffset = 1000, bytesPerHeight = 3,
      strideBytes = 4, hm_ellipsoid = ellipsoid (tilingScheme this),
      hm_extent = tile_extent tile, generateTextureCoords = True, interleave = True,
      relativeToCenter = boundingSphereCenter tile\<rparr>"

section \<open>createTilePlaneGeometry\<close>

text \<open>
  The function throws at once. The result is the thrown error together with the tile as
  the call leaves it.
\<close>

definition createTilePlaneGeometry ::
  "provider \<Rightarrow> 'c \<Rightarrow> 'a Tile_scheme \<Rightarrow> 'j \<Rightarrow> (error + bool) \<times> 'a Tile_scheme" where
  "createTilePlaneGeometry this context tile proj =
     (Inl (DeveloperError ''Not supported yet.''), tile)"

section \<open>Example data\<close>

text \<open>
  Concrete inputs for the closed examples: the WGS84 radii, an error budget that halves
  from level to level and one that drops to zero, two extents, schemes of 2 by 1 and 25 by 1
  level-zero tiles, tiles at a given address, and the description of the first
  end-to-end scenario.
\<close>

definition wgs84 :: Ellipsoid where
  "wgs84 = \<lparr>getRadii = \<lparr>c3_x = 6378137, c3_y = 6378137, c3_z = 6356752.3142451793\<rparr>\<rparr>"

definition halving_error :: "nat \<Rightarrow> real" where
  "halving_error l = 40000 / 2 ^ l"

fun step_error :: "nat \<Rightarrow> real" where
  "step_error 0 = 1"
| "step_error (Suc l) = 0"

definition whole_globe :: Extent where
  "whole_globe = \<lparr>west = - PI, south = - PI_OVER_TWO, east = PI, north = PI_OVER_TWO\<rparr>"

definition northern_half :: Extent where
  "northern_half = \<lparr>west = - PI, south = 0, east = PI, north = PI_OVER_TWO\<rparr>"

definition scheme_2x1 :: TilingScheme where
  "scheme_2x1 = \<lparr>numberOfLevelZeroTilesX = 2, numberOfLevelZeroTilesY = 1,
     ellipsoid = wgs84, getLevelMaximumGeometricError = halving_error,
     extent = whole_globe\<rparr>"

definition scheme_25x1 :: TilingScheme where
  "scheme_25x1 = \<lparr>numberOfLevelZeroTilesX = 25, numberOfLevelZeroTilesY = 1,
     ellipsoid = wgs84, getLevelMaximumGeometricError = halving_error,
     extent = whole_globe\<rparr>"

definition scheme_northern :: TilingScheme where
  "scheme_northern = \<lparr>numberOfLevelZeroTilesX = 2, numberOfLevelZeroTilesY = 1,
     ellipsoid = wgs84, getLevelMaximumGeometricError = halving_error,
     extent = northern_half\<rparr>"

definition scheme_negative_radius :: TilingScheme where
  "scheme_negative_radius = \<lparr>numberOfLevelZeroTilesX = 2, numberOfLevelZeroTilesY = 1,
     ellipsoid = \<lparr>getRadii = \<lparr>c3_x = - 1, c3_y = - 1, c3_z = - 1\<rparr>\<rparr>,
     getLevelMaximumGeometricError = halving_error, extent = whole_globe\<rparr>"

definition scheme_zero_radius :: TilingScheme where
  "scheme_zero_radius = \<lparr>numberOfLevelZeroTilesX = 2, numberOfLevelZeroTilesY = 1,
     ellipsoid = \<lparr>getRadii = \<lparr>c3_x = 0, c3_y = 0, c3_z = 0\<rparr>\<rparr>,
     getLevelMaximumGeometricError = step_error, extent = whole_globe\<rparr>"

definition tile_at :: "nat \<Rightarrow> int \<Rightarrow> int \<Rightarrow> Extent \<Rightarrow> Tile" where
  "tile_at l i j e = \<lparr>tile_level = l, tile_x = i, tile_y = j, tile_extent = e,
     boundingSphereCenter = \<lparr>c3_x = 0, c3_y = 0, c3_z = 0\<rparr>\<rparr>"

definition scenario1 :: description where
  "scenario1 = \<lparr>description_url = Some ''https://example/ImageServer'',
     description_token = None, description_proxy = None\<rparr>"

definition provider_of :: "string \<Rightarrow> string option \<Rightarrow> provider" where
  "provider_of u tk = \<lparr>url = u, token = tk, tilingScheme = scheme_2x1, projection = WGS84,
     maxLevel = 25, proxy = None\<rparr>"

text \<open>
  A total rendering of numbers for the closed examples: it writes the special values as
  JavaScript does and only the sign of a finite number. The theorems below hold for every
  rendering.
\<close>

fun sign_str :: "jsnum \<Rightarrow> string" where
  "sign_str NaN = ''NaN''"
| "sign_str PosInf = ''Infinity''"
| "sign_str NegInf = ''-Infinity''"
| "sign_str (Fin r) = (if r < 0 then ''-1'' else if r = 0 then ''0'' else ''1'')"

section \<open>Rounding\<close>

text \<open>
  Facts about the rounding of the arithmetic: it keeps integers and the order, it is odd,
  it is exact on every number with a significand of 53 bits, and its error is half a unit
  in the last place.
\<close>

lemma round_even_of_int: "round_even (of_int n) = n"
  by (simp add: round_even_def)

lemma round_even_bounds: "\<lfloor>q\<rfloor> \<le> round_even q" "round_even q \<le> \<lfloor>q\<rfloor> + 1"
  by (simp_all add: round_even_def Let_def)

lemma round_even_mono:
  assumes "q \<le> r"
  shows "round_even q \<le> round_even r"
proof (cases "\<lfloor>q\<rfloor> = \<lfloor>r\<rfloor>")
  case True
  then show ?thesis using assms by (auto simp: round_even_def Let_def)
next
  case False
  then have "\<lfloor>q\<rfloor> < \<lfloor>r\<rfloor>" using assms floor_mono [of q r] by linarith
  then have "round_even q \<le> \<lfloor>r\<rfloor>" using round_even_bounds(2) [of q] by linarith
  then show ?thesis using round_even_bounds(1) [of r] by linarith
qed

lemma round_even_error: "\<bar>of_int (round_even q) - q\<bar> \<le> 1 / 2"
proof -
  have "of_int \<lfloor>q\<rfloor> \<le> q" "q < of_int \<lfloor>q\<rfloor> + 1" by linarith+
  then show ?thesis by (auto simp: round_even_def Let_def)
qed

lemma round_even_minus: "round_even (- q) = - round_even q"
proof (cases "q = of_int \<lfloor>q\<rfloor>")
  case True
  then obtain n where "q = of_int n" ..
  then have "- q = of_int (- n)" by simp
  then show ?thesis unfolding \<open>q = of_int n\<close> by (simp only: round_even_of_int)
next
  case False
  moreover have "of_int \<lfloor>q\<rfloor> \<le> q" "q < of_int \<lfloor>q\<rfloor> + 1" by linarith+
  ultimately have lt: "of_int \<lfloor>q\<rfloor> < q" by linarith
  have f: "\<lfloor>- q\<rfloor> = - \<lfloor>q\<rfloor> - 1"
  proof (rule floor_unique)
    show "of_int (- \<lfloor>q\<rfloor> - 1) \<le> - q" by simp linarith
    show "- q < of_int (- \<lfloor>q\<rfloor> - 1) + 1" using lt by simp
  qed
  show ?thesis
    unfolding round_even_def Let_def f using lt \<open>q < of_int \<lfloor>q\<rfloor> + 1\<close> by auto
qed

lemma ulp_exponent_minus: "ulp_exponent (- x) = ulp_exponent x"
  by (simp add: ulp_exponent_def)

lemma round_double_minus: "round_double (- x) = - round_double x"
  by (simp add: round_double_def ulp_exponent_minus round_even_minus)

lemma round_double_zero: "round_double 0 = 0"
  by (simp add: round_double_def round_even_def)

lemma grid_change:
  assumes "e \<le> k"
  shows "of_int m * (2::real) powr of_int k = of_int (m * 2 ^ nat (k - e)) * 2 powr of_int e"
proof -
  have r: "(of_int (k - e) :: real) = real (nat (k - e))" using assms by simp
  have "(2::real) powr of_int k = 2 powr (of_int (k - e) + of_int e)" by simp
  also have "\<dots> = 2 powr of_int (k - e) * 2 powr of_int e" by (rule powr_add)
  also have "2 powr of_int (k - e) = (2::real) ^ nat (k - e)"
    unfolding r by (rule powr_realpow) simp
  finally show ?thesis by simp
qed

lemma round_double_ge_grid:
  assumes "ulp_exponent x \<le> k" and "of_int m * 2 powr of_int k \<le> x"
  shows "of_int m * 2 powr of_int k \<le> round_double x"
proof -
  let ?e = "ulp_exponent x"
  let ?n = "m * 2 ^ nat (k - ?e)"
  have p: "0 < (2::real) powr of_int ?e" by simp
  have g: "of_int m * (2::real) powr of_int k = of_int ?n * 2 powr of_int ?e"
    by (rule grid_change [OF assms(1)])
  have "of_int ?n * 2 powr of_int ?e \<le> x" using assms(2) unfolding g .
  then have "of_int ?n \<le> x / 2 powr of_int ?e" using p by (simp add: pos_le_divide_eq)
  then have "round_even (of_int ?n) \<le> round_even (x / 2 powr of_int ?e)"
    by (rule round_even_mono)
  then have "?n \<le> round_even (x / 2 powr of_int ?e)" by (simp only: round_even_of_int)
  then have "(of_int ?n :: real) \<le> of_int (round_even (x / 2 powr of_int ?e))"
    by (simp only: of_int_le_iff)
  then have "of_int ?n * 2 powr of_int ?e \<le> round_double x"
    unfolding round_double_def using p by (simp only: mult_le_cancel_right_pos)
  then show ?thesis by (simp only: g)
qed

lemma round_double_le_grid:
  assumes "ulp_exponent x \<le> k" and "x \<le> of_int m * 2 powr of_int k"
  shows "round_double x \<le> of_int m * 2 powr of_int k"
proof -
  have "of_int (- m) * 2 powr of_int k \<le> round_double (- x)"
  proof (rule round_double_ge_grid)
    show "ulp_exponent (- x) \<le> k" using assms(1) by (simp only: ulp_exponent_minus)
    show "of_int (- m) * 2 powr of_int k \<le> - x" using assms(2) by simp
  qed
  then show ?thesis by (simp add: round_double_minus)
qed

lemma round_double_nonneg: "0 \<le> x \<Longrightarrow> 0 \<le> round_double x"
  using round_double_ge_grid [of x "ulp_exponent x" 0] by simp

lemma floor_log2_bounds:
  assumes "0 < x"
  shows "2 powr of_int \<lfloor>log 2 x\<rfloor> \<le> x" "x < 2 powr (of_int \<lfloor>log 2 x\<rfloor> + 1)"
  using floor_log_eq_powr_iff [of x 2 "\<lfloor>log 2 x\<rfloor>"] assms by simp_all

lemma floor_log2_le:
  assumes "0 < x" "x < 2 powr of_int k"
  shows "\<lfloor>log 2 x\<rfloor> < k"
proof -
  have "(2::real) powr of_int \<lfloor>log 2 x\<rfloor> < 2 powr of_int k"
    using floor_log2_bounds(1) [OF assms(1)] assms(2) by linarith
  then have "(of_int \<lfloor>log 2 x\<rfloor> :: real) < of_int k" by simp
  then show ?thesis by (simp only: of_int_less_iff)
qed

lemma ulp_exponent_mono:
  assumes "x \<noteq> 0" "\<bar>x\<bar> \<le> \<bar>y\<bar>"
  shows "ulp_exponent x \<le> ulp_exponent y"
proof -
  have "log 2 \<bar>x\<bar> \<le> log 2 \<bar>y\<bar>" using assms by simp
  then have "\<lfloor>log 2 \<bar>x\<bar>\<rfloor> \<le> \<lfloor>log 2 \<bar>y\<bar>\<rfloor>" by (rule floor_mono)
  then show ?thesis by (simp add: ulp_exponent_def)
qed

lemma round_double_mono_pos:
  assumes "0 < x" "x \<le> y"
  shows "round_double x \<le> round_double y"
proof -
  let ?ex = "ulp_exponent x" and ?ey = "ulp_exponent y"
  have y: "0 < y" using assms by linarith
  have le: "?ex \<le> ?ey" using assms by (intro ulp_exponent_mono) simp_all
  show ?thesis
  proof (cases "?ex = ?ey")
    case True
    have p: "0 < (2::real) powr of_int ?ey" by simp
    have "x / 2 powr of_int ?ey \<le> y / 2 powr of_int ?ey"
      using assms(2) p by (simp add: divide_right_mono)
    then have "round_even (x / 2 powr of_int ?ey) \<le> round_even (y / 2 powr of_int ?ey)"
      by (rule round_even_mono)
    then have "(of_int (round_even (x / 2 powr of_int ?ey)) :: real)
        \<le> of_int (round_even (y / 2 powr of_int ?ey))"
      by (simp only: of_int_le_iff)
    then show ?thesis
      unfolding round_double_def True using p by (simp only: mult_le_cancel_right_pos)
  next
    case False
    then have lt: "?ex < ?ey" using le by linarith
    then have "- 1074 < ?ey" by (simp add: ulp_exponent_def)
    then have ey: "?ey = \<lfloor>log 2 y\<rfloor> - 52" using y by (simp add: ulp_exponent_def)
    let ?k = "?ey + 52"
    have B1: "2 powr of_int ?k \<le> y"
      using floor_log2_bounds(1) [OF y] by (simp add: ey)
    have "\<lfloor>log 2 x\<rfloor> - 52 \<le> ?ex" using assms(1) by (simp add: ulp_exponent_def)
    then have "\<lfloor>log 2 x\<rfloor> + 1 \<le> ?k" using lt by linarith
    then have "(of_int \<lfloor>log 2 x\<rfloor> :: real) + 1 \<le> of_int ?k"
      by (metis of_int_1 of_int_add of_int_le_iff)
    then have "(2::real) powr (of_int \<lfloor>log 2 x\<rfloor> + 1) \<le> 2 powr of_int ?k"
      by (intro powr_mono) simp_all
    then have B2: "x \<le> 2 powr of_int ?k"
      using floor_log2_bounds(2) [OF assms(1)] by linarith
    have "round_double x \<le> of_int 1 * 2 powr of_int ?k"
      by (rule round_double_le_grid) (use lt B2 in simp_all)
    moreover have "of_int 1 * 2 powr of_int ?k \<le> round_double y"
      by (rule round_double_ge_grid) (use B1 in simp_all)
    ultimately show ?thesis by linarith
  qed
qed

lemma round_double_mono:
  assumes "x \<le> y"
  shows "round_double x \<le> round_double y"
proof -
  consider "0 < x" | "x \<le> 0" "0 \<le> y" | "y < 0" by linarith
  then show ?thesis
  proof cases
    case 1
    then show ?thesis using assms by (rule round_double_mono_pos)
  next
    case 2
    have "round_double x \<le> 0"
      using round_double_nonneg [of "- x"] 2(1) by (simp add: round_double_minus)
    moreover have "0 \<le> round_double y" using 2(2) by (rule round_double_nonneg)
    ultimately show ?thesis by linarith
  next
    case 3
    have "round_double (- y) \<le> round_double (- x)"
      by (rule round_double_mono_pos) (use 3 assms in simp_all)
    then show ?thesis by (simp add: round_double_minus)
  qed
qed

lemma ulp_exponent_le_grid:
  assumes "x = of_int m * 2 powr of_int k" "x \<noteq> 0" "\<bar>m\<bar> < 2 ^ 53" "- 1074 \<le> k"
  shows "ulp_exponent x \<le> k"
proof -
  have "(of_int \<bar>m\<bar> :: real) < of_int (2 ^ 53)" using assms(3) by (simp only: of_int_less_iff)
  then have m: "\<bar>of_int m :: real\<bar> < 2 ^ 53" by simp
  have "\<bar>x\<bar> = \<bar>of_int m\<bar> * 2 powr of_int k" by (simp add: assms(1) abs_mult)
  also have "\<dots> < 2 ^ 53 * 2 powr of_int k"
    using m by (simp only: mult_less_cancel_right_pos powr_gt_zero)
  also have "\<dots> = 2 powr of_int (k + 53)"
    by (simp add: powr_add)
  finally have "\<lfloor>log 2 \<bar>x\<bar>\<rfloor> < k + 53"
    using assms(2) by (intro floor_log2_le) simp_all
  then show ?thesis using assms(4) by (simp add: ulp_exponent_def)
qed

lemma round_double_exact:
  assumes "\<bar>m\<bar> < 2 ^ 53" "- 1074 \<le> k"
  shows "round_double (of_int m * 2 powr of_int k) = of_int m * 2 powr of_int k"
proof (cases "of_int m * (2::real) powr of_int k = 0")
  case True
  then show ?thesis by (simp only: round_double_zero)
next
  case False
  let ?x = "of_int m * (2::real) powr of_int k"
  have e: "ulp_exponent ?x \<le> k"
    by (rule ulp_exponent_le_grid [OF refl False assms])
  have "?x \<le> round_double ?x" by (rule round_double_ge_grid [OF e]) simp
  moreover have "round_double ?x \<le> ?x" by (rule round_double_le_grid [OF e]) simp
  ultimately show ?thesis by linarith
qed

lemma round_double_frac:
  assumes "\<bar>m\<bar> < 2 ^ 53" "n \<le> 1074"
  shows "round_double (of_int m / 2 ^ n) = of_int m / 2 ^ n"
proof -
  have "(2::real) powr of_int (- int n) = 1 / 2 ^ n"
    by (simp add: powr_minus powr_realpow inverse_eq_divide)
  then have "of_int m / 2 ^ n = of_int m * (2::real) powr of_int (- int n)" by simp
  moreover have "round_double (of_int m * 2 powr of_int (- int n))
      = of_int m * 2 powr of_int (- int n)"
    by (rule round_double_exact) (use assms in simp_all)
  ultimately show ?thesis by simp
qed

lemma round_double_int:
  assumes "\<bar>m\<bar> < 2 ^ 53"
  shows "round_double (of_int m) = of_int m"
  using round_double_frac [OF assms, of 0] by simp

lemma round_double_error:
  assumes "\<bar>x\<bar> < 2 powr (of_int E + 1)" "- 1022 \<le> E"
  shows "\<bar>round_double x - x\<bar> \<le> 2 powr (of_int E - 53)"
proof (cases "x = 0")
  case True
  then show ?thesis by (simp add: round_double_zero)
next
  case False
  let ?e = "ulp_exponent x"
  have p: "0 < (2::real) powr of_int ?e" by simp
  have "\<bar>x\<bar> < 2 powr of_int (E + 1)" using assms(1) by simp
  then have "\<lfloor>log 2 \<bar>x\<bar>\<rfloor> < E + 1" using False by (intro floor_log2_le) simp_all
  then have e: "?e \<le> E - 52" using assms(2) by (simp add: ulp_exponent_def)
  let ?q = "x / 2 powr of_int ?e"
  have x: "x = ?q * 2 powr of_int ?e" by simp
  have "round_double x - x = (of_int (round_even ?q) - ?q) * 2 powr of_int ?e"
    unfolding round_double_def by (simp add: left_diff_distrib)
  then have "\<bar>round_double x - x\<bar> = \<bar>of_int (round_even ?q) - ?q\<bar> * 2 powr of_int ?e"
    by (simp only: abs_mult) simp
  also have "\<dots> \<le> 1 / 2 * 2 powr of_int ?e"
    using round_even_error [of ?q] p by (simp only: mult_le_cancel_right_pos)
  also have "\<dots> = 2 powr (of_int ?e - 1)" by (simp add: powr_diff)
  also have "\<dots> \<le> 2 powr (of_int E - 53)"
  proof (rule powr_mono)
    have "(of_int ?e :: real) \<le> of_int (E - 52)" using e by (simp only: of_int_le_iff)
    then show "(of_int ?e :: real) - 1 \<le> of_int E - 53" by simp
  qed simp
  finally show ?thesis .
qed

lemma round_double_abs_le:
  assumes "\<bar>x\<bar> \<le> of_int m * 2 powr of_int k" "\<bar>m\<bar> < 2 ^ 53" "- 1074 \<le> k"
  shows "\<bar>round_double x\<bar> \<le> of_int m * 2 powr of_int k"
proof -
  let ?b = "of_int m * (2::real) powr of_int k"
  have "round_double x \<le> round_double ?b"
    by (rule round_double_mono) (use assms(1) in linarith)
  moreover have "round_double (- ?b) \<le> round_double x"
    by (rule round_double_mono) (use assms(1) in linarith)
  ultimately show ?thesis
    by (simp add: round_double_minus round_double_exact [OF assms(2,3)])
qed

text \<open>Rounding with the infinities.\<close>

lemma rounded_mono:
  assumes "x \<le> y"
  shows "jle (rounded x) (rounded y)"
  using round_double_mono [OF assms] by (simp add: rounded_def Let_def)

lemma rounded_small:
  assumes "\<bar>x\<bar> \<le> 16"
  shows "rounded x = Fin (round_double x)"
proof -
  have "\<bar>round_double x\<bar> \<le> of_int 1 * 2 powr of_int 4"
    by (rule round_double_abs_le) (use assms in simp_all)
  then have a: "\<bar>round_double x\<bar> \<le> 16" by simp
  define H :: real where "H = 2 ^ 1024"
  have "(2::real) ^ 4 < 2 ^ 1024" by (rule power_strict_increasing) simp_all
  then have "16 < H" by (simp only: H_def) simp
  then have "\<not> H \<le> round_double x" "\<not> round_double x \<le> - H" using a by linarith+
  then have "\<not> 2 ^ 1024 \<le> round_double x" "\<not> round_double x \<le> - (2 ^ 1024)"
    unfolding H_def .
  then show ?thesis unfolding rounded_def Let_def by (simp only: if_False)
qed

lemma rounded_frac:
  assumes "\<bar>m\<bar> < 2 ^ 53" "n \<le> 1074" "\<bar>of_int m / 2 ^ n :: real\<bar> \<le> 16"
  shows "rounded (of_int m / 2 ^ n) = Fin (of_int m / 2 ^ n)"
  by (simp only: rounded_small [OF assms(3)] round_double_frac [OF assms(1,2)])

lemma powr_neg_nat: "(2::real) powr (- real n) = 1 / 2 ^ n"
  by (simp add: powr_minus_divide powr_realpow)

lemma powr_m51: "(2::real) powr (of_int 2 - 53) = 1 / 2 ^ 51"
proof -
  have "(2::real) powr (of_int 2 - 53) = 2 powr (- real 51)" by simp
  then show ?thesis by (simp only: powr_neg_nat)
qed

lemma powr_m50: "(2::real) powr (of_int 3 - 53) = 1 / 2 ^ 50"
proof -
  have "(2::real) powr (of_int 3 - 53) = 2 powr (- real 50)" by simp
  then show ?thesis by (simp only: powr_neg_nat)
qed

lemma err8:
  assumes "\<bar>x\<bar> < 8"
  shows "\<bar>round_double x - x\<bar> \<le> 1 / 2 ^ 51"
proof -
  have "\<bar>x\<bar> < 2 powr (of_int 2 + 1)" using assms by simp
  then have "\<bar>round_double x - x\<bar> \<le> 2 powr (of_int 2 - 53)"
    by (rule round_double_error) simp
  then show ?thesis by (simp only: powr_m51)
qed

lemma err16:
  assumes "\<bar>x\<bar> < 16"
  shows "\<bar>round_double x - x\<bar> \<le> 1 / 2 ^ 50"
proof -
  have "\<bar>x\<bar> < 2 powr (of_int 3 + 1)" using assms by simp
  then have "\<bar>round_double x - x\<bar> \<le> 2 powr (of_int 3 - 53)"
    by (rule round_double_error) simp
  then show ?thesis by (simp only: powr_m50)
qed

text \<open>Rounding a number of which the binade is known.\<close>

lemma round_double_eval:
  assumes "2 powr of_int E \<le> \<bar>x\<bar>" "\<bar>x\<bar> < 2 powr (of_int E + 1)" "- 1022 \<le> E"
  shows "round_double x =
    of_int (round_even (x / 2 powr of_int (E - 52))) * 2 powr of_int (E - 52)"
proof -
  have "0 < \<bar>x\<bar>" using assms(1) powr_gt_zero [of 2 "of_int E"] by linarith
  then have "\<lfloor>log 2 \<bar>x\<bar>\<rfloor> = E"
    using assms(1,2) by (simp add: floor_log_eq_powr_iff)
  then have "ulp_exponent x = E - 52" using assms(3) by (simp add: ulp_exponent_def)
  then show ?thesis by (simp only: round_double_def)
qed

lemma round_double_eval_small:
  assumes "1 / 2 ^ j \<le> \<bar>x\<bar>" "\<bar>x\<bar> < 2 / 2 ^ j" "j \<le> 1022"
  shows "round_double x = of_int (round_even (x * 2 ^ (j + 52))) / 2 ^ (j + 52)"
proof -
  let ?E = "- int j"
  have p: "(2::real) powr of_int ?E = 1 / 2 ^ j"
    using powr_neg_nat [of j] by simp
  have "of_int (?E - 52) = - real (j + 52)" by simp
  then have q: "(2::real) powr of_int (?E - 52) = 1 / 2 ^ (j + 52)"
    by (simp only: powr_neg_nat)
  have "(2::real) powr (of_int ?E + 1) = 2 powr of_int ?E * 2 powr 1"
    by (rule powr_add)
  also have "\<dots> = 1 / 2 ^ j * 2" unfolding p by simp
  finally have p1: "(2::real) powr (of_int ?E + 1) = 2 / 2 ^ j" by simp
  have 1: "2 powr of_int ?E \<le> \<bar>x\<bar>" unfolding p by (rule assms(1))
  have 2: "\<bar>x\<bar> < 2 powr (of_int ?E + 1)" unfolding p1 by (rule assms(2))
  have 3: "- 1022 \<le> ?E" using assms(3) by simp
  have "round_double x =
    of_int (round_even (x / 2 powr of_int (?E - 52))) * 2 powr of_int (?E - 52)"
    by (rule round_double_eval [OF 1 2 3])
  then show ?thesis unfolding q by simp
qed

lemma round_double_eval_big:
  assumes "2 ^ j \<le> \<bar>x\<bar>" "\<bar>x\<bar> < 2 * 2 ^ j" "j \<le> 52"
  shows "round_double x = of_int (round_even (x * 2 ^ (52 - j))) / 2 ^ (52 - j)"
proof -
  let ?E = "int j"
  have p: "(2::real) powr of_int ?E = 2 ^ j"
    using powr_realpow [of 2 j] by simp
  have "of_int (?E - 52) = - real (52 - j)" using assms(3) by simp
  then have q: "(2::real) powr of_int (?E - 52) = 1 / 2 ^ (52 - j)"
    by (simp only: powr_neg_nat)
  have "(2::real) powr (of_int ?E + 1) = 2 powr of_int ?E * 2 powr 1"
    by (rule powr_add)
  also have "\<dots> = 2 ^ j * 2" unfolding p by simp
  finally have p1: "(2::real) powr (of_int ?E + 1) = 2 * 2 ^ j" by simp
  have 1: "2 powr of_int ?E \<le> \<bar>x\<bar>" unfolding p by (rule assms(1))
  have 2: "\<bar>x\<bar> < 2 powr (of_int ?E + 1)" unfolding p1 by (rule assms(2))
  have 3: "- 1022 \<le> ?E" by simp
  have "round_double x =
    of_int (round_even (x / 2 powr of_int (?E - 52))) * 2 powr of_int (?E - 52)"
    by (rule round_double_eval [OF 1 2 3])
  then show ?thesis unfolding q by simp
qed

section \<open>Auxiliary facts\<close>

text \<open>The constants are doubles, and so are their quotients by a power of two.\<close>

lemma PI_bounds: "3 < PI" "PI < 4"
  by (simp_all add: PI_def)

lemma rounded_PI:
  "rounded PI = Fin PI" "rounded (- PI) = Fin (- PI)"
  "rounded (PI / 2) = Fin (PI / 2)" "rounded (- (PI / 2)) = Fin (- (PI / 2))"
  "rounded (2 * PI) = Fin (2 * PI)" "rounded 0 = Fin 0"
  using rounded_frac [of 7074237752028440 51] rounded_frac [of "- 7074237752028440" 51]
    rounded_frac [of 7074237752028440 52] rounded_frac [of "- 7074237752028440" 52]
    rounded_frac [of 7074237752028440 50] rounded_frac [of 0 0]
  by (simp_all add: PI_def)

lemma round_double_PI:
  "round_double PI = PI" "round_double (- PI) = - PI"
  "round_double PI_OVER_TWO = PI_OVER_TWO" "round_double (- PI_OVER_TWO) = - PI_OVER_TWO"
  "round_double TWO_PI = TWO_PI"
  using round_double_frac [of 7074237752028440 51] round_double_frac [of "- 7074237752028440" 51]
    round_double_frac [of 7074237752028440 52] round_double_frac [of "- 7074237752028440" 52]
    round_double_frac [of 7074237752028440 50]
  by (simp_all add: PI_def PI_OVER_TWO_def TWO_PI_def)

lemma round_double_PI_pow2:
  assumes "n \<le> 1000"
  shows "round_double (TWO_PI / 2 ^ n) = TWO_PI / 2 ^ n"
    and "round_double (PI / 2 ^ n) = PI / 2 ^ n"
proof -
  have a: "TWO_PI / 2 ^ n = of_int 7074237752028440 / 2 ^ (50 + n)"
    by (simp add: TWO_PI_def PI_def power_add)
  have b: "PI / 2 ^ n = of_int 7074237752028440 / 2 ^ (51 + n)"
    by (simp add: PI_def power_add)
  show "round_double (TWO_PI / 2 ^ n) = TWO_PI / 2 ^ n"
    unfolding a by (rule round_double_frac) (use assms in simp_all)
  show "round_double (PI / 2 ^ n) = PI / 2 ^ n"
    unfolding b by (rule round_double_frac) (use assms in simp_all)
qed

lemma rounded_int:
  assumes "\<bar>m\<bar> < 2 ^ 53"
  shows "rounded (of_int m) = Fin (of_int m)"
proof -
  define H :: real where "H = 2 ^ 1024"
  have "(of_int \<bar>m\<bar> :: real) < of_int (2 ^ 53)" using assms by (simp only: of_int_less_iff)
  then have a: "\<bar>of_int m :: real\<bar> < 2 ^ 53" by simp
  have "(2::real) ^ 53 < 2 ^ 1024" by (rule power_strict_increasing) simp_all
  with a have "\<bar>of_int m :: real\<bar> < 2 ^ 1024" by (rule less_trans)
  then have "\<bar>of_int m :: real\<bar> < H" unfolding H_def .
  then have "\<not> H \<le> of_int m" "\<not> of_int m \<le> - H" by linarith+
  then have "\<not> 2 ^ 1024 \<le> round_double (of_int m)"
      "\<not> round_double (of_int m) \<le> - (2 ^ 1024)"
    unfolding H_def round_double_int [OF assms] .
  then show ?thesis
    unfolding rounded_def Let_def by (simp only: if_False round_double_int [OF assms])
qed

text \<open>The shift is a multiplication by a power of two as long as the product fits.\<close>

lemma shl32_exact:
  assumes "0 < a" "a * 2 ^ n < 2 ^ 31"
  shows "shl32 a n = a * 2 ^ n"
proof -
  have "(2::int) ^ n \<le> a * 2 ^ n" using assms(1) by simp
  then have "(2::int) ^ n < 2 ^ 31" using assms(2) by linarith
  then have n: "n < 31" by (rule power_less_imp_less_exp [rotated]) simp
  then have m: "n mod 32 = n" by simp
  have "push_bit n (word_of_int a :: 32 word) = word_of_int (a * 2 ^ n)"
    by (simp add: push_bit_eq_mult)
  then have "shl32 a n = sint (word_of_int (a * 2 ^ n) :: 32 word)"
    by (simp add: shl32_def m)
  also have "\<dots> = signed_take_bit 31 (a * 2 ^ n)"
    by (simp only: sint_sbintrunc') simp
  also have "\<dots> = a * 2 ^ n"
  proof (rule signed_take_bit_int_eq_self)
    have "- (2 ^ 31) \<le> (0::int)" by simp
    also have "0 \<le> a * 2 ^ n" using assms(1) by simp
    finally show "- (2 ^ 31) \<le> a * 2 ^ n" .
    show "a * 2 ^ n < 2 ^ 31" by (rule assms(2))
  qed
  finally show ?thesis .
qed

text \<open>
  One axis of the request: the step \<open>C / N\<close> is far above the rounding errors, so two
  neighbouring bounds stay apart; the lower end is kept, and the upper end is kept when the
  step is exact.
\<close>

lemma delta_bounds:
  fixes C :: real and N :: int
  assumes C: "1 \<le> C" "C \<le> 7" and N: "0 < N" "N < 2 ^ 31"
  shows "1 / 2 ^ 32 < round_double (C / of_int N)"
    and "round_double (C / of_int N) * of_int N < 8"
proof -
  let ?v = "C / of_int N" and ?d = "round_double (C / of_int N)"
  have Nr: "0 < (of_int N :: real)" "(of_int N :: real) < 2 ^ 31"
    using N by (simp, metis of_int_less_iff of_int_numeral of_int_power)
  have v: "0 < ?v" "?v \<le> 7"
  proof -
    show "0 < ?v" using C Nr by simp
    have "1 \<le> (of_int N :: real)" using N by simp
    then have "?v \<le> C / 1" using C by (intro divide_left_mono) simp_all
    then show "?v \<le> 7" using C by simp
  qed
  then have "\<bar>?v\<bar> < 8" by simp
  then have e: "\<bar>?d - ?v\<bar> \<le> 1 / 2 ^ 51" by (rule err8)
  have "1 / 2 ^ 31 < ?v"
  proof -
    have "1 / 2 ^ 31 < 1 / (of_int N :: real)" using Nr by (simp add: divide_strict_left_mono)
    also have "\<dots> \<le> ?v" using C Nr by (simp add: divide_right_mono)
    finally show ?thesis .
  qed
  moreover have "(1::real) / 2 ^ 31 - 1 / 2 ^ 51 > 1 / 2 ^ 32" by simp
  ultimately show "1 / 2 ^ 32 < ?d" using e by linarith
  have "?d \<le> ?v + 1 / 2 ^ 51" using e by linarith
  then have "?d * of_int N \<le> (?v + 1 / 2 ^ 51) * of_int N"
    using Nr by (simp only: mult_le_cancel_right_pos)
  also have "\<dots> = C + of_int N / 2 ^ 51" using Nr by (simp add: distrib_right)
  also have "\<dots> < 7 + 2 ^ 31 / 2 ^ 51"
    using C Nr by (intro add_le_less_mono divide_strict_right_mono) simp_all
  also have "\<dots> < 8" by simp
  finally show "?d * of_int N < 8" .
qed

lemma axis_strict:
  fixes C c :: real and N k :: int
  assumes C: "1 \<le> C" "C \<le> 7" and c: "\<bar>c\<bar> \<le> 4"
    and N: "0 < N" "N < 2 ^ 31" and k: "0 \<le> k" "k < N"
  shows "jless (jadd (Fin c) (jmul (jdiv (Fin C) (num N)) (num k)))
               (jadd (Fin c) (jmul (jdiv (Fin C) (num N)) (num (k + 1))))"
    and "round_double c = c \<Longrightarrow>
         jle (Fin c) (jadd (Fin c) (jmul (jdiv (Fin C) (num N)) (num k)))"
    and "round_double (C / of_int N) = C / of_int N \<Longrightarrow> round_double C = C \<Longrightarrow>
         round_double (c + C) = c + C \<Longrightarrow>
         jle (jadd (Fin c) (jmul (jdiv (Fin C) (num N)) (num (k + 1)))) (Fin (c + C))"
proof -
  let ?d = "round_double (C / of_int N)"
  let ?a = "?d * of_int k" and ?b = "?d * of_int (k + 1)"
  note db = delta_bounds [OF C N]
  have d0: "0 < ?d" using db(1) by (rule less_trans [rotated]) simp
  have Nr: "0 < (of_int N :: real)" using N by simp
  have N0: "(of_int N :: real) \<noteq> 0" using Nr by simp
  have v16: "\<bar>C / of_int N\<bar> \<le> 16"
  proof -
    have "C / of_int N \<le> C / 1" using C N by (intro divide_left_mono) simp_all
    then show ?thesis using C Nr by simp
  qed
  have a0: "0 \<le> ?a" using d0 k by simp
  have ab: "?b = ?a + ?d" by (simp add: distrib_left)
  have "(of_int (k + 1) :: real) \<le> of_int N" using k by (simp only: of_int_le_iff)
  then have "?b \<le> ?d * of_int N" using d0 by (simp only: mult_le_cancel_left_pos)
  then have b8: "?b < 8" using db(2) by linarith
  have a8: "?a < 8" using ab d0 b8 by linarith
  have b0: "0 \<le> ?b" using ab a0 d0 by linarith
  have ea: "\<bar>round_double ?a - ?a\<bar> \<le> 1 / 2 ^ 51" by (rule err8) (use a0 a8 in simp)
  have eb: "\<bar>round_double ?b - ?b\<bar> \<le> 1 / 2 ^ 51" by (rule err8) (use b0 b8 in simp)
  have small: "(1::real) / 2 ^ 51 \<le> 1" by simp
  let ?ua = "c + round_double ?a" and ?ub = "c + round_double ?b"
  have ua: "\<bar>?ua\<bar> < 16" using c a0 a8 ea small by linarith
  have ub: "\<bar>?ub\<bar> < 16" using c b0 b8 eb small by linarith
  have eua: "\<bar>round_double ?ua - ?ua\<bar> \<le> 1 / 2 ^ 50" using ua by (rule err16)
  have eub: "\<bar>round_double ?ub - ?ub\<bar> \<le> 1 / 2 ^ 50" using ub by (rule err16)
  have J: "jdiv (Fin C) (num N) = Fin ?d"
    using N0 by (simp add: num_def rounded_small [OF v16])
  have Ma: "jmul (Fin ?d) (num k) = Fin (round_double ?a)"
    using a0 a8 by (simp add: num_def rounded_small)
  have Mb: "jmul (Fin ?d) (num (k + 1)) = Fin (round_double ?b)"
    using b0 b8 by (simp only: num_def jmul.simps) (simp add: rounded_small)
  have Aa: "jadd (Fin c) (Fin (round_double ?a)) = Fin (round_double ?ua)"
    using ua by (simp add: rounded_small)
  have Ab: "jadd (Fin c) (Fin (round_double ?b)) = Fin (round_double ?ub)"
    using ub by (simp add: rounded_small)
  have gap: "(6::real) / 2 ^ 51 < 1 / 2 ^ 32" by simp
  have two: "(1::real) / 2 ^ 50 = 2 / 2 ^ 51" by simp
  have "round_double ?ua < round_double ?ub"
    using ea eb eua eub ab db(1) gap two by linarith
  then show "jless (jadd (Fin c) (jmul (jdiv (Fin C) (num N)) (num k)))
               (jadd (Fin c) (jmul (jdiv (Fin C) (num N)) (num (k + 1))))"
    by (simp only: J Ma Mb Aa Ab jless.simps)
  show "jle (Fin c) (jadd (Fin c) (jmul (jdiv (Fin C) (num N)) (num k)))"
    if rc: "round_double c = c"
  proof -
    have "0 \<le> round_double ?a" using a0 by (rule round_double_nonneg)
    then have "c \<le> ?ua" by simp
    then have "round_double c \<le> round_double ?ua" by (rule round_double_mono)
    then show ?thesis by (simp only: J Ma Aa jle.simps rc)
  qed
  show "jle (jadd (Fin c) (jmul (jdiv (Fin C) (num N)) (num (k + 1)))) (Fin (c + C))"
    if rv: "round_double (C / of_int N) = C / of_int N" and rC: "round_double C = C"
      and rs: "round_double (c + C) = c + C"
  proof -
    have "?d * of_int N = C" using N0 by (simp add: rv)
    then have "?b \<le> C" using \<open>?b \<le> ?d * of_int N\<close> by simp
    then have "round_double ?b \<le> round_double C" by (rule round_double_mono)
    then have "?ub \<le> c + C" by (simp add: rC)
    then have "round_double ?ub \<le> round_double (c + C)" by (rule round_double_mono)
    then show ?thesis by (simp only: J Mb Ab jle.simps rs)
  qed
qed

text \<open>The four bounds of tile (0, 0, 0) on a scheme of 2 by 1 level-zero tiles.\<close>

lemma bounds_level0:
  assumes "tile_level t = 0" "tile_x t = 0" "tile_y t = 0"
    "numberOfLevelZeroTilesX s = 2" "numberOfLevelZeroTilesY s = 1"
  shows "xStart s t = Fin (- PI)" "yStart s t = Fin (- PI_OVER_TWO)"
    "xStop s t = Fin 0" "yStop s t = Fin PI_OVER_TWO"
proof -
  have h: "- (PI / 2) + PI = PI / 2" by simp
  show "xStart s t = Fin (- PI)" "yStart s t = Fin (- PI_OVER_TWO)"
    "xStop s t = Fin 0" "yStop s t = Fin PI_OVER_TWO"
    using assms
    by (simp_all add: xStart_def yStart_def xStop_def yStop_def xDelta_def yDelta_def
        tileY_def tilesInXDirection_def tilesInYDirection_def shl32_def num_def TWO_PI_def
        PI_OVER_TWO_def rounded_PI h)
qed

lemma sign_str_bounds:
  "sign_str (Fin (- PI)) = ''-1''" "sign_str (Fin (- PI_OVER_TWO)) = ''-1''"
  "sign_str (Fin 0) = ''0''" "sign_str (Fin PI_OVER_TWO) = ''1''"
  by (simp_all add: PI_def PI_OVER_TWO_def)

lemma bounds_origin_2x1:
  "xStart scheme_2x1 (tile_at 0 0 0 e) = Fin (- PI)"
  "yStart scheme_2x1 (tile_at 0 0 0 e) = Fin (- PI_OVER_TWO)"
  "xStop scheme_2x1 (tile_at 0 0 0 e) = Fin 0"
  "yStop scheme_2x1 (tile_at 0 0 0 e) = Fin PI_OVER_TWO"
  by (rule bounds_level0; simp add: tile_at_def scheme_2x1_def)+

lemma url_origin_2x1:
  "requestUrl sign_str (provider_of u tk) (tile_at 0 0 0 whole_globe) =
     u @ ''/exportImage?format=tiff&f=image&size=256%2C256&bbox=-1%2C-1%2C0%2C1'' @
     (if truthy tk then ''&token='' @ toString tk else [])"
  by (simp add: requestUrl_def bbox_def provider_of_def bounds_origin_2x1 sign_str_bounds
      del: sign_str.simps)

text \<open>Level 30 on 2 by 1 level-zero tiles: the tile count in X is negative.\<close>

lemma level30_stop:
  "round_double (- PI + - (TWO_PI / 2147483648)) < - PI"
proof -
  have "round_double (- PI + - (TWO_PI / 2147483648))
      \<le> round_double (of_int (- 7074237752028441) / 2 ^ 51)"
    by (rule round_double_mono) (simp add: TWO_PI_def PI_def)
  also have "\<dots> = of_int (- 7074237752028441) / 2 ^ 51"
    by (rule round_double_frac) simp_all
  also have "\<dots> < - PI" by (simp add: PI_def)
  finally show ?thesis .
qed

lemma west_east_level30:
  "xStart scheme_2x1 (tile_at 30 0 0 whole_globe) = Fin (- PI)"
  "xStop scheme_2x1 (tile_at 30 0 0 whole_globe)
     = Fin (round_double (- PI + - (TWO_PI / 2147483648)))"
proof -
  let ?t = "tile_at 30 0 0 whole_globe"
  have T: "tilesInXDirection scheme_2x1 ?t = - 2147483648"
    by (simp add: tilesInXDirection_def scheme_2x1_def tile_at_def shl32_def)
  have "rounded (of_int (- 7074237752028440) / 2 ^ 81) = Fin (of_int (- 7074237752028440) / 2 ^ 81)"
    by (rule rounded_frac) simp_all
  moreover have v: "of_int (- 7074237752028440) / 2 ^ 81 = - (TWO_PI / 2147483648)"
    by (simp add: TWO_PI_def PI_def)
  ultimately have r: "rounded (- (TWO_PI / 2147483648)) = Fin (- (TWO_PI / 2147483648))"
    by (simp only:)
  have D: "xDelta scheme_2x1 ?t = Fin (- (TWO_PI / 2147483648))"
    using r by (simp add: xDelta_def T num_def)
  have X: "tile_x ?t = 0" by (simp add: tile_at_def)
  show "xStart scheme_2x1 ?t = Fin (- PI)"
    by (simp add: xStart_def D X num_def rounded_PI)
  have "\<bar>- PI + - (TWO_PI / 2147483648)\<bar> \<le> 16" by (simp add: TWO_PI_def PI_def)
  then have s: "rounded (- PI + - (TWO_PI / 2147483648))
      = Fin (round_double (- PI + - (TWO_PI / 2147483648)))"
    by (rule rounded_small)
  show "xStop scheme_2x1 ?t = Fin (round_double (- PI + - (TWO_PI / 2147483648)))"
    using r s by (simp add: xStop_def D X num_def)
qed

text \<open>The east bound of the last tile of 25 level-zero tiles, step by step.\<close>

lemma round_even_delta_25: "round_even (22637560806491008 / 5) = 4527512161298202"
  by (simp add: round_even_def)

lemma round_even_product_25: "round_even (56593902016227525 / 8) = 7074237752028441"
  by (simp add: round_even_def)

lemma delta_25: "round_double (TWO_PI / 25) = 4527512161298202 / 2 ^ 54"
proof -
  have a: "1 / 2 ^ 2 \<le> \<bar>TWO_PI / 25\<bar>" "\<bar>TWO_PI / 25\<bar> < 2 / 2 ^ 2"
    by (simp_all add: TWO_PI_def PI_def)
  have e: "TWO_PI / 25 * 2 ^ (2 + 52) = 22637560806491008 / 5"
    by (simp add: TWO_PI_def PI_def)
  have "round_double (TWO_PI / 25)
      = of_int (round_even (TWO_PI / 25 * 2 ^ (2 + 52))) / 2 ^ (2 + 52)"
    by (rule round_double_eval_small [OF a]) simp
  then show ?thesis unfolding e round_even_delta_25 by simp
qed

lemma product_25: "round_double (4527512161298202 / 2 ^ 54 * 25) = 7074237752028441 / 2 ^ 50"
proof -
  let ?x = "4527512161298202 / 2 ^ 54 * (25::real)"
  have a: "2 ^ 2 \<le> \<bar>?x\<bar>" "\<bar>?x\<bar> < 2 * 2 ^ 2" by simp_all
  have e: "?x * 2 ^ (52 - 2) = 56593902016227525 / 8" by simp
  have "round_double ?x = of_int (round_even (?x * 2 ^ (52 - 2))) / 2 ^ (52 - 2)"
    by (rule round_double_eval_big [OF a]) simp
  then show ?thesis unfolding e round_even_product_25 by simp
qed

lemma sum_25: "rounded (- PI + 7074237752028441 / 2 ^ 50) = Fin (7074237752028442 / 2 ^ 51)"
  using rounded_frac [of 7074237752028442 51] by (simp add: PI_def)

lemma east_25x1:
  "xStop scheme_25x1 (tile_at 0 24 0 whole_globe) = Fin (7074237752028442 / 2 ^ 51)"
proof -
  have T: "tilesInXDirection scheme_25x1 (tile_at 0 24 0 whole_globe) = 25"
    by (simp add: tilesInXDirection_def scheme_25x1_def tile_at_def shl32_def)
  have "\<bar>TWO_PI / 25\<bar> \<le> 16" by (simp add: TWO_PI_def PI_def)
  then have D: "xDelta scheme_25x1 (tile_at 0 24 0 whole_globe) = Fin (4527512161298202 / 2 ^ 54)"
    by (simp add: xDelta_def T num_def rounded_small delta_25)
  have "\<bar>4527512161298202 / 2 ^ 54 * (25::real)\<bar> \<le> 16" by simp
  then have M: "jmul (Fin (4527512161298202 / 2 ^ 54)) (num 25) = Fin (7074237752028441 / 2 ^ 50)"
    by (simp only: num_def jmul.simps of_int_numeral rounded_small product_25)
  have X: "tile_x (tile_at 0 24 0 whole_globe) + 1 = 25" by (simp add: tile_at_def)
  show ?thesis
    by (simp only: xStop_def D X M jadd.simps sum_25)
qed

text \<open>The bounds in Y of a tile at level 2, and a granularity at level 3.\<close>

lemma quarter_steps:
  "jdiv (Fin PI) (num 4) = Fin (PI / 4)"
  "jmul (Fin (PI / 4)) (num 3) = Fin (3 * PI / 4)"
  "jmul (Fin (PI / 4)) (num 4) = Fin PI"
  "jadd (Fin (- PI_OVER_TWO)) (Fin (3 * PI / 4)) = Fin (PI / 4)"
  "jadd (Fin (- PI_OVER_TWO)) (Fin PI) = Fin PI_OVER_TWO"
proof -
  have a: "rounded (PI / 4) = Fin (PI / 4)"
    using rounded_frac [of 7074237752028440 53] by (simp add: PI_def)
  have b: "rounded (3 * PI / 4) = Fin (3 * PI / 4)"
    using rounded_frac [of 2652839157010665 50] by (simp add: PI_def)
  have h: "rounded PI_OVER_TWO = Fin PI_OVER_TWO"
    by (simp only: PI_OVER_TWO_def rounded_PI)
  have e3: "PI / 4 * of_int 3 = 3 * PI / 4" by simp
  have e4: "PI / 4 * of_int 4 = PI" by simp
  have s1: "- PI_OVER_TWO + 3 * PI / 4 = PI / 4" by (simp add: PI_OVER_TWO_def)
  have s2: "- PI_OVER_TWO + PI = PI_OVER_TWO" by (simp add: PI_OVER_TWO_def)
  show "jdiv (Fin PI) (num 4) = Fin (PI / 4)" by (simp add: num_def a)
  show "jmul (Fin (PI / 4)) (num 3) = Fin (3 * PI / 4)"
    by (simp only: num_def jmul.simps e3 b)
  show "jmul (Fin (PI / 4)) (num 4) = Fin PI"
    by (simp only: num_def jmul.simps e4 rounded_PI)
  show "jadd (Fin (- PI_OVER_TWO)) (Fin (3 * PI / 4)) = Fin (PI / 4)"
    by (simp only: jadd.simps s1 a)
  show "jadd (Fin (- PI_OVER_TWO)) (Fin PI) = Fin PI_OVER_TWO"
    by (simp only: jadd.simps s2 h)
qed

lemma granularity_level3: "rounded (5000 / 6378137) = Fin (7230459330722103 / 2 ^ 63)"
proof -
  let ?x = "5000 / (6378137::real)"
  have a: "1 / 2 ^ 11 \<le> \<bar>?x\<bar>" "\<bar>?x\<bar> < 2 / 2 ^ 11" by simp_all
  have e: "?x * 2 ^ (11 + 52) = 46116860184273879040000 / 6378137" by simp
  have r: "round_even (46116860184273879040000 / 6378137) = 7230459330722103"
    by (simp add: round_even_def)
  have "round_double ?x = of_int (round_even (?x * 2 ^ (11 + 52))) / 2 ^ (11 + 52)"
    by (rule round_double_eval_small [OF a]) simp
  then have "round_double ?x = 7230459330722103 / 2 ^ 63" unfolding e r by simp
  moreover have "rounded ?x = Fin (round_double ?x)" by (rule rounded_small) simp
  ultimately show ?thesis by (simp only:)
qed

text \<open>A string without the letter k does not contain \<open>&token=\<close>.\<close>

lemma no_k_no_token: "CHR ''k'' \<notin> set u \<Longrightarrow> \<not> sublist ''&token='' u"
proof
  assume k: "CHR ''k'' \<notin> set u" and "sublist ''&token='' u"
  then have "set ''&token='' \<subseteq> set u" by (rule_tac set_mono_sublist)
  then have "CHR ''k'' \<in> set u" by auto
  with k show False by simp
qed

lemma sign_str_chars: "\<forall>n. set (sign_str n) \<subseteq> set ''0123456789.-+eInfinityNaN''"
proof
  fix n show "set (sign_str n) \<subseteq> set ''0123456789.-+eInfinityNaN''"
    by (cases n) auto
qed

lemma halving_error_antimono: "\<forall>a b. a \<le> b \<longrightarrow> halving_error b \<le> halving_error a"
  by (simp add: halving_error_def divide_left_mono power_increasing)

section \<open>The request URL\<close>

text \<open>
  C1. A provider constructed from \<open>{url: "https://example/ImageServer"}\<close>, with no
  token and no proxy, on a scheme of 2 by 1 level-zero tiles: for tile (level 0, x 0, y 0)
  the four bounds are west \<open>-PI\<close>, south \<open>-PI/2\<close>, east \<open>0\<close> and north \<open>PI/2\<close>, exactly,
  with \<open>PI\<close> the double \<open>Math.PI\<close>; the request URL is the fixed query followed by these
  four numbers, and, as long as the rendering of a number uses only the characters of a
  JavaScript number, the URL does not contain \<open>&token=\<close>.
\<close>

theorem scenario1_request_url:
  assumes g: "numberOfLevelZeroTilesX g = 2" "numberOfLevelZeroTilesY g = 1"
    and t: "tile_level t = 0" "tile_x t = 0" "tile_y t = 0"
    and str: "\<forall>n. set (str n) \<subseteq> set ''0123456789.-+eInfinityNaN''"
  shows "\<exists>this. EsriImageServerTerrainProvider g (Some scenario1) = Inr this
     \<and> xStart (tilingScheme this) t = Fin (- PI)
     \<and> yStart (tilingScheme this) t = Fin (- PI_OVER_TWO)
     \<and> xStop (tilingScheme this) t = Fin 0
     \<and> yStop (tilingScheme this) t = Fin PI_OVER_TWO
     \<and> requestUrl str this t =
         ''https://example/ImageServer/exportImage?format=tiff&f=image&size=256%2C256&bbox=''
         @ str (Fin (- PI)) @ ''%2C'' @ str (Fin (- PI_OVER_TWO)) @ ''%2C'' @ str (Fin 0)
         @ ''%2C'' @ str (Fin PI_OVER_TWO)
     \<and> \<not> sublist ''&token='' (requestUrl str this t)"
proof -
  let ?p = "\<lparr>url = ''https://example/ImageServer'', token = None, tilingScheme = g,
              projection = WGS84, maxLevel = 25, proxy = None\<rparr>"
  have c: "EsriImageServerTerrainProvider g (Some scenario1) = Inr ?p"
    by (simp add: EsriImageServerTerrainProvider_def defaultValue_def scenario1_def)
  note b = bounds_level0 [OF t g]
  have b': "xStart (tilingScheme ?p) t = Fin (- PI)"
    "yStart (tilingScheme ?p) t = Fin (- PI_OVER_TWO)"
    "xStop (tilingScheme ?p) t = Fin 0" "yStop (tilingScheme ?p) t = Fin PI_OVER_TWO"
    using b by simp_all
  have u: "requestUrl str ?p t =
         ''https://example/ImageServer/exportImage?format=tiff&f=image&size=256%2C256&bbox=''
         @ str (Fin (- PI)) @ ''%2C'' @ str (Fin (- PI_OVER_TWO)) @ ''%2C'' @ str (Fin 0)
         @ ''%2C'' @ str (Fin PI_OVER_TWO)"
    by (simp add: requestUrl_def bbox_def b)
  have k: "CHR ''k'' \<notin> set (str n)" for n
    using str by auto
  have "CHR ''k'' \<notin> set (requestUrl str ?p t)"
    unfolding u by (simp add: k)
  then have "\<not> sublist ''&token='' (requestUrl str ?p t)"
    by (rule no_k_no_token)
  with c b' u show ?thesis by blast
qed

theorem scenario1_request_url_witness:
  "\<exists>this. EsriImageServerTerrainProvider scheme_2x1 (Some scenario1) = Inr this
     \<and> requestUrl sign_str this (tile_at 0 0 0 whole_globe) =
         ''https://example/ImageServer/exportImage?format=tiff&f=image&size=256%2C256&bbox=-1%2C-1%2C0%2C1''
     \<and> \<not> sublist ''&token='' (requestUrl sign_str this (tile_at 0 0 0 whole_globe))"
proof -
  obtain this where
    c: "EsriImageServerTerrainProvider scheme_2x1 (Some scenario1) = Inr this"
    and u: "requestUrl sign_str this (tile_at 0 0 0 whole_globe) =
         ''https://example/ImageServer/exportImage?format=tiff&f=image&size=256%2C256&bbox=''
         @ sign_str (Fin (- PI)) @ ''%2C'' @ sign_str (Fin (- PI_OVER_TWO)) @ ''%2C''
         @ sign_str (Fin 0) @ ''%2C'' @ sign_str (Fin PI_OVER_TWO)"
    and n: "\<not> sublist ''&token='' (requestUrl sign_str this (tile_at 0 0 0 whole_globe))"
    using scenario1_request_url [of scheme_2x1 "tile_at 0 0 0 whole_globe" sign_str,
        OF _ _ _ _ _ sign_str_chars]
    by (auto simp: scheme_2x1_def tile_at_def simp del: sign_str.simps)
  have "requestUrl sign_str this (tile_at 0 0 0 whole_globe) =
         ''https://example/ImageServer/exportImage?format=tiff&f=image&size=256%2C256&bbox=-1%2C-1%2C0%2C1''"
    unfolding u by (simp only: sign_str_bounds) simp
  with c n show ?thesis by blast
qed

text \<open>
  C2, as stated, fails: the separators in the size and in the bounding box are written
  \<open>%2C\<close>, not a comma, and a token configured as the empty string is not appended. For
  a provider with URL \<open>u\<close> and no token the request URL differs from the comma form, and
  with the empty token it does not end in \<open>&token=\<close>.
\<close>

theorem request_url_commas_counterexample:
  "requestUrl sign_str (provider_of ''u'' None) (tile_at 0 0 0 whole_globe)
     \<noteq> ''u/exportImage?format=tiff&f=image&size=256,256&bbox='' @ sign_str (Fin (- PI))
        @ '','' @ sign_str (Fin (- PI_OVER_TWO)) @ '','' @ sign_str (Fin 0) @ '','' @
        sign_str (Fin PI_OVER_TWO)
   \<and> requestUrl sign_str (provider_of ''u'' None) (tile_at 0 0 0 whole_globe)
     = ''u/exportImage?format=tiff&f=image&size=256%2C256&bbox=-1%2C-1%2C0%2C1''
   \<and> \<not> suffix ''&token=''
         (requestUrl sign_str (provider_of ''u'' (Some [])) (tile_at 0 0 0 whole_globe))"
  by (simp add: url_origin_2x1 sign_str_bounds suffix_to_prefix del: sign_str.simps)

text \<open>
  C2, amended. For every provider and tile the request URL is
  \<open>{url}/exportImage?format=tiff&f=image&size=256%2C256&bbox={west}%2C{south}%2C{east}%2C{north}\<close>,
  followed by \<open>&token={token}\<close> exactly when the token is a non-empty string, and the
  whole is passed through the proxy's \<open>getURL\<close> when a proxy is configured. With a
  non-empty token \<open>T\<close> and no proxy the URL ends with \<open>&token=T\<close>.
\<close>

theorem request_url_shape:
  "requestUrl str this tile =
     (let shape = url this @ ''/exportImage?format=tiff&f=image&size=256%2C256&bbox='' @
            str (xStart (tilingScheme this) tile) @ ''%2C'' @
            str (yStart (tilingScheme this) tile) @ ''%2C'' @
            str (xStop (tilingScheme this) tile) @ ''%2C'' @
            str (yStop (tilingScheme this) tile) @
            (case token this of None \<Rightarrow> []
             | Some T \<Rightarrow> if T = [] then [] else ''&token='' @ T)
      in case proxy this of None \<Rightarrow> shape | Some getURL \<Rightarrow> getURL shape)
   \<and> (\<forall>T. token this = Some T \<and> T \<noteq> [] \<and> proxy this = None \<longrightarrow>
         suffix (''&token='' @ T) (requestUrl str this tile))"
  by (auto simp: requestUrl_def bbox_def Let_def suffix_def split: option.splits)

theorem request_url_shape_witness:
  "requestUrl sign_str (provider_of ''u'' (Some ''T'')) (tile_at 0 0 0 whole_globe) =
     ''u/exportImage?format=tiff&f=image&size=256%2C256&bbox=-1%2C-1%2C0%2C1&token=T''
   \<and> suffix ''&token=T''
        (requestUrl sign_str (provider_of ''u'' (Some ''T'')) (tile_at 0 0 0 whole_globe))"
proof -
  let ?p = "provider_of ''u'' (Some ''T'')" and ?t = "tile_at 0 0 0 whole_globe"
  have 1: "requestUrl sign_str ?p ?t =
     ''u/exportImage?format=tiff&f=image&size=256%2C256&bbox=-1%2C-1%2C0%2C1&token=T''"
    by (simp add: url_origin_2x1)
  have "token ?p = Some ''T'' \<and> ''T'' \<noteq> [] \<and> proxy ?p = None"
    by (simp add: provider_of_def)
  with request_url_shape [of sign_str ?p ?t, THEN conjunct2]
  have "suffix (''&token='' @ ''T'') (requestUrl sign_str ?p ?t)" by blast
  then have "suffix ''&token=T'' (requestUrl sign_str ?p ?t)" by simp
  with 1 show ?thesis by blast
qed

text \<open>
  C10. The request does not read the tile's stored extent: two tiles with the same level,
  x and y receive the same request URL whatever their extents, and the bounding box is
  the same on any two schemes with the same level-zero tile counts. The argument of the
  tessellation, in contrast, carries the tile's stored extent.
\<close>

theorem request_ignores_stored_extent:
  assumes "tile_level t1 = tile_level t2" and "tile_x t1 = tile_x t2"
    and "tile_y t1 = tile_y t2"
  shows "requestUrl str this t1 = requestUrl str this t2
    \<and> (numberOfLevelZeroTilesX s1 = numberOfLevelZeroTilesX s2 \<and>
       numberOfLevelZeroTilesY s1 = numberOfLevelZeroTilesY s2 \<longrightarrow>
         bbox str s1 t1 = bbox str s2 t2)
    \<and> hm_extent (computeBuffersArgument this t1 pixels) = tile_extent t1
    \<and> hm_extent (computeBuffersArgument this t2 pixels) = tile_extent t2"
  using assms
  by (simp add: requestUrl_def bbox_def xStart_def yStart_def xStop_def yStop_def xDelta_def
      yDelta_def tileY_def tilesInXDirection_def tilesInYDirection_def
      computeBuffersArgument_def)

theorem request_ignores_stored_extent_witness:
  "tile_extent (tile_at 1 2 1 whole_globe) \<noteq> tile_extent (tile_at 1 2 1 northern_half)
   \<and> requestUrl sign_str (provider_of ''u'' None) (tile_at 1 2 1 whole_globe)
     = requestUrl sign_str (provider_of ''u'' None) (tile_at 1 2 1 northern_half)
   \<and> hm_extent (computeBuffersArgument (provider_of ''u'' None)
        (tile_at 1 2 1 whole_globe) [0::nat]) = whole_globe
   \<and> hm_extent (computeBuffersArgument (provider_of ''u'' None)
        (tile_at 1 2 1 northern_half) [0::nat]) = northern_half"
  using request_ignores_stored_extent
    [of "tile_at 1 2 1 whole_globe" "tile_at 1 2 1 northern_half" sign_str
      "provider_of ''u'' None" scheme_2x1 scheme_2x1 "[0::nat]"]
  by (simp add: tile_at_def whole_globe_def northern_half_def PI_OVER_TWO_def PI_def)

section \<open>The extent of the request\<close>

text \<open>
  C3, as stated, fails, for three reasons. The tile counts are computed with the 32-bit
  shift: on 2 by 1 level-zero tiles, tile (level 30, x 0, y 0) is a valid address, the
  count in X is \<open>2 << 30 = -2147483648\<close>, and the east bound of the request is not above
  its west bound and is below the west bound of the scheme. The arithmetic rounds: on 25 by
  1 level-zero tiles, the last tile of level 0 (x 24) has the east bound \<open>PI + 2^-50\<close>,
  above the east bound \<open>PI\<close> of the scheme. The function never reads the extent of the
  scheme: on a scheme that covers the northern half only, the request of tile (0, 0, 0)
  starts at \<open>-PI/2\<close>, south of the scheme.
\<close>

theorem request_extent_counterexample:
  "0 \<le> tile_x (tile_at 30 0 0 whole_globe)
   \<and> tile_x (tile_at 30 0 0 whole_globe)
       < numberOfLevelZeroTilesX scheme_2x1 * 2 ^ tile_level (tile_at 30 0 0 whole_globe)
   \<and> 0 \<le> tile_y (tile_at 30 0 0 whole_globe)
   \<and> tile_y (tile_at 30 0 0 whole_globe)
       < numberOfLevelZeroTilesY scheme_2x1 * 2 ^ tile_level (tile_at 30 0 0 whole_globe)
   \<and> \<not> jless (xStart scheme_2x1 (tile_at 30 0 0 whole_globe))
              (xStop scheme_2x1 (tile_at 30 0 0 whole_globe))
   \<and> \<not> jle (Fin (west (extent scheme_2x1))) (xStop scheme_2x1 (tile_at 30 0 0 whole_globe))
   \<and> 0 \<le> tile_x (tile_at 0 24 0 whole_globe)
   \<and> tile_x (tile_at 0 24 0 whole_globe)
       < numberOfLevelZeroTilesX scheme_25x1 * 2 ^ tile_level (tile_at 0 24 0 whole_globe)
   \<and> 0 \<le> tile_y (tile_at 0 24 0 whole_globe)
   \<and> tile_y (tile_at 0 24 0 whole_globe)
       < numberOfLevelZeroTilesY scheme_25x1 * 2 ^ tile_level (tile_at 0 24 0 whole_globe)
   \<and> xStop scheme_25x1 (tile_at 0 24 0 whole_globe) = Fin (PI + 1 / 2 ^ 50)
   \<and> \<not> jle (xStop scheme_25x1 (tile_at 0 24 0 whole_globe)) (Fin (east (extent scheme_25x1)))
   \<and> yStart scheme_northern (tile_at 0 0 0 northern_half) = Fin (- PI_OVER_TWO)
   \<and> \<not> jle (Fin (south (extent scheme_northern)))
            (yStart scheme_northern (tile_at 0 0 0 northern_half))"
proof -
  have w: "west (extent scheme_2x1) = - PI" by (simp add: scheme_2x1_def whole_globe_def)
  have a: "\<not> jless (xStart scheme_2x1 (tile_at 30 0 0 whole_globe))
              (xStop scheme_2x1 (tile_at 30 0 0 whole_globe))"
    "\<not> jle (Fin (west (extent scheme_2x1))) (xStop scheme_2x1 (tile_at 30 0 0 whole_globe))"
    using level30_stop unfolding west_east_level30 w by simp_all
  have e: "(7074237752028442::real) / 2 ^ 51 = PI + 1 / 2 ^ 50" by (simp add: PI_def)
  have b: "xStop scheme_25x1 (tile_at 0 24 0 whole_globe) = Fin (PI + 1 / 2 ^ 50)"
    by (simp only: east_25x1 e)
  have b': "\<not> jle (xStop scheme_25x1 (tile_at 0 24 0 whole_globe))
      (Fin (east (extent scheme_25x1)))"
    unfolding b by (simp add: scheme_25x1_def whole_globe_def)
  have c: "yStart scheme_northern (tile_at 0 0 0 northern_half) = Fin (- PI_OVER_TWO)"
    by (rule bounds_level0) (simp_all add: tile_at_def scheme_northern_def)
  have c': "\<not> jle (Fin (south (extent scheme_northern)))
            (yStart scheme_northern (tile_at 0 0 0 northern_half))"
    unfolding c by (simp add: scheme_northern_def northern_half_def PI_OVER_TWO_def PI_def)
  have v: "0 \<le> tile_x (tile_at 30 0 0 whole_globe)
   \<and> tile_x (tile_at 30 0 0 whole_globe)
       < numberOfLevelZeroTilesX scheme_2x1 * 2 ^ tile_level (tile_at 30 0 0 whole_globe)
   \<and> 0 \<le> tile_y (tile_at 30 0 0 whole_globe)
   \<and> tile_y (tile_at 30 0 0 whole_globe)
       < numberOfLevelZeroTilesY scheme_2x1 * 2 ^ tile_level (tile_at 30 0 0 whole_globe)"
    by (simp add: tile_at_def scheme_2x1_def)
  have w: "0 \<le> tile_x (tile_at 0 24 0 whole_globe)
   \<and> tile_x (tile_at 0 24 0 whole_globe)
       < numberOfLevelZeroTilesX scheme_25x1 * 2 ^ tile_level (tile_at 0 24 0 whole_globe)
   \<and> 0 \<le> tile_y (tile_at 0 24 0 whole_globe)
   \<and> tile_y (tile_at 0 24 0 whole_globe)
       < numberOfLevelZeroTilesY scheme_25x1 * 2 ^ tile_level (tile_at 0 24 0 whole_globe)"
    by (simp add: tile_at_def scheme_25x1_def)
  from v a w b b' c c' show ?thesis by blast
qed

text \<open>
  C3, amended. On a scheme with positive level-zero tile counts, at a level where both
  tile counts are below \<open>2^31\<close> (every level up to the provider's \<open>maxLevel\<close> of 25 on 2
  by 1 level-zero tiles), each valid tile address gives a request with west < east and
  south < north. When the extent of the scheme is the whole globe (longitude \<open>-PI..PI\<close>,
  latitude \<open>-PI/2..PI/2\<close>), the west and south bounds of the request are inside the bounds
  of the scheme, and so is the east bound when the level-zero count in X is a power of two,
  and the north bound when the level-zero count in Y is a power of two.
\<close>

theorem request_extent_in_bounds:
  assumes nx: "0 < numberOfLevelZeroTilesX s"
      "numberOfLevelZeroTilesX s * 2 ^ tile_level t < 2 ^ 31"
    and ny: "0 < numberOfLevelZeroTilesY s"
      "numberOfLevelZeroTilesY s * 2 ^ tile_level t < 2 ^ 31"
    and x: "0 \<le> tile_x t" "tile_x t < numberOfLevelZeroTilesX s * 2 ^ tile_level t"
    and y: "0 \<le> tile_y t" "tile_y t < numberOfLevelZeroTilesY s * 2 ^ tile_level t"
  shows "jless (xStart s t) (xStop s t) \<and> jless (yStart s t) (yStop s t)
    \<and> (extent s = whole_globe \<longrightarrow>
         jle (Fin (west (extent s))) (xStart s t) \<and> jle (Fin (south (extent s))) (yStart s t))
    \<and> (extent s = whole_globe \<and> (\<exists>j. numberOfLevelZeroTilesX s = 2 ^ j) \<longrightarrow>
         jle (xStop s t) (Fin (east (extent s))))
    \<and> (extent s = whole_globe \<and> (\<exists>j. numberOfLevelZeroTilesY s = 2 ^ j) \<longrightarrow>
         jle (yStop s t) (Fin (north (extent s))))"
proof -
  let ?NX = "numberOfLevelZeroTilesX s * 2 ^ tile_level t"
  let ?NY = "numberOfLevelZeroTilesY s * 2 ^ tile_level t"
  have TX: "tilesInXDirection s t = ?NX"
    unfolding tilesInXDirection_def by (rule shl32_exact [OF nx])
  have TY: "tilesInYDirection s t = ?NY"
    unfolding tilesInYDirection_def by (rule shl32_exact [OF ny])
  have NX: "0 < ?NX" using x by linarith
  have NY: "0 < ?NY" using y by linarith
  have k: "0 \<le> tileY s t" "tileY s t < ?NY"
    using y by (simp_all add: tileY_def TY)
  have C2: "1 \<le> TWO_PI" "TWO_PI \<le> 7" "\<bar>- PI\<bar> \<le> 4"
    by (simp_all add: TWO_PI_def PI_def)
  have C1: "1 \<le> PI" "PI \<le> 7" "\<bar>- PI_OVER_TWO\<bar> \<le> 4"
    by (simp_all add: PI_OVER_TWO_def PI_def)
  note ax = axis_strict [OF C2 NX nx(2) x]
  note ay = axis_strict [OF C1 NY ny(2) k]
  have 1: "jless (xStart s t) (xStop s t)"
    unfolding xStart_def xStop_def xDelta_def TX by (rule ax(1))
  have 2: "jless (yStart s t) (yStop s t)"
    unfolding yStart_def yStop_def yDelta_def TY by (rule ay(1))
  have 3: "jle (Fin (- PI)) (xStart s t)"
    unfolding xStart_def xDelta_def TX by (rule ax(2)) (rule round_double_PI)
  have 4: "jle (Fin (- PI_OVER_TWO)) (yStart s t)"
    unfolding yStart_def yDelta_def TY by (rule ay(2)) (rule round_double_PI)
  have 5: "jle (xStop s t) (Fin PI)" if "numberOfLevelZeroTilesX s = 2 ^ j" for j
  proof -
    have N: "(of_int ?NX :: real) = 2 ^ (j + tile_level t)" by (simp add: that power_add)
    have "(2::int) ^ (j + tile_level t) < 2 ^ 31" using nx(2) by (simp add: that power_add)
    then have "j + tile_level t < 31" by (rule power_less_imp_less_exp [rotated]) simp
    then have r: "round_double (TWO_PI / of_int ?NX) = TWO_PI / of_int ?NX"
      unfolding N by (intro round_double_PI_pow2) simp
    have s: "- PI + TWO_PI = PI" by (simp add: TWO_PI_def)
    have "jle (xStop s t) (Fin (- PI + TWO_PI))"
      unfolding xStop_def xDelta_def TX
      by (rule ax(3) [OF r]) (simp_all only: s round_double_PI)
    then show ?thesis by (simp only: s)
  qed
  have 6: "jle (yStop s t) (Fin PI_OVER_TWO)" if "numberOfLevelZeroTilesY s = 2 ^ j" for j
  proof -
    have N: "(of_int ?NY :: real) = 2 ^ (j + tile_level t)" by (simp add: that power_add)
    have "(2::int) ^ (j + tile_level t) < 2 ^ 31" using ny(2) by (simp add: that power_add)
    then have "j + tile_level t < 31" by (rule power_less_imp_less_exp [rotated]) simp
    then have r: "round_double (PI / of_int ?NY) = PI / of_int ?NY"
      unfolding N by (intro round_double_PI_pow2) simp
    have s: "- PI_OVER_TWO + PI = PI_OVER_TWO" by (simp add: PI_OVER_TWO_def)
    have "jle (yStop s t) (Fin (- PI_OVER_TWO + PI))"
      unfolding yStop_def yDelta_def TY
      by (rule ay(3) [OF r]) (simp_all only: s round_double_PI)
    then show ?thesis by (simp only: s)
  qed
  have g: "west whole_globe = - PI" "south whole_globe = - PI_OVER_TWO"
    "east whole_globe = PI" "north whole_globe = PI_OVER_TWO"
    by (simp_all add: whole_globe_def)
  from 1 2 3 4 5 6 show ?thesis by (auto simp: g)
qed

theorem request_extent_in_bounds_witness:
  "jless (xStart scheme_2x1 (tile_at 25 67108863 33554431 whole_globe))
         (xStop scheme_2x1 (tile_at 25 67108863 33554431 whole_globe))
   \<and> jless (yStart scheme_2x1 (tile_at 25 67108863 33554431 whole_globe))
         (yStop scheme_2x1 (tile_at 25 67108863 33554431 whole_globe))
   \<and> jle (Fin (- PI)) (xStart scheme_2x1 (tile_at 25 67108863 33554431 whole_globe))
   \<and> jle (xStop scheme_2x1 (tile_at 25 67108863 33554431 whole_globe)) (Fin PI)
   \<and> jle (Fin (- PI_OVER_TWO)) (yStart scheme_2x1 (tile_at 25 67108863 33554431 whole_globe))
   \<and> jle (yStop scheme_2x1 (tile_at 25 67108863 33554431 whole_globe)) (Fin PI_OVER_TWO)"
proof -
  let ?t = "tile_at 25 67108863 33554431 whole_globe"
  have px: "\<exists>j. numberOfLevelZeroTilesX scheme_2x1 = 2 ^ j"
    by (rule exI [of _ 1]) (simp add: scheme_2x1_def)
  have py: "\<exists>j. numberOfLevelZeroTilesY scheme_2x1 = 2 ^ j"
    by (rule exI [of _ 0]) (simp add: scheme_2x1_def)
  have e: "extent scheme_2x1 = whole_globe" by (simp add: scheme_2x1_def)
  have g: "west whole_globe = - PI" "south whole_globe = - PI_OVER_TWO"
    "east whole_globe = PI" "north whole_globe = PI_OVER_TWO"
    by (simp_all add: whole_globe_def)
  have "jless (xStart scheme_2x1 ?t) (xStop scheme_2x1 ?t)
      \<and> jless (yStart scheme_2x1 ?t) (yStop scheme_2x1 ?t)
    \<and> (extent scheme_2x1 = whole_globe \<longrightarrow>
         jle (Fin (west (extent scheme_2x1))) (xStart scheme_2x1 ?t)
         \<and> jle (Fin (south (extent scheme_2x1))) (yStart scheme_2x1 ?t))
    \<and> (extent scheme_2x1 = whole_globe \<and> (\<exists>j. numberOfLevelZeroTilesX scheme_2x1 = 2 ^ j) \<longrightarrow>
         jle (xStop scheme_2x1 ?t) (Fin (east (extent scheme_2x1))))
    \<and> (extent scheme_2x1 = whole_globe \<and> (\<exists>j. numberOfLevelZeroTilesY scheme_2x1 = 2 ^ j) \<longrightarrow>
         jle (yStop scheme_2x1 ?t) (Fin (north (extent scheme_2x1))))"
    by (rule request_extent_in_bounds) (simp_all add: scheme_2x1_def tile_at_def)
  then show ?thesis using px py by (simp only: e g)
qed

text \<open>
  C4, as stated, fails: \<open>tilesInYDirection\<close> is the 32-bit shift of the level-zero count,
  not its product with \<open>2^level\<close>. On the scheme with one level-zero tile in Y, at level 31
  the count is \<open>1 << 31 = -2147483648\<close> and \<open>tileY\<close> of tile y = 0 is \<open>-2147483649\<close>.
\<close>

theorem tileY_level31_counterexample:
  "tilesInYDirection scheme_2x1 (tile_at 31 0 0 whole_globe) = - 2147483648
   \<and> numberOfLevelZeroTilesY scheme_2x1 * 2 ^ tile_level (tile_at 31 0 0 whole_globe)
       = 2147483648
   \<and> tileY scheme_2x1 (tile_at 31 0 0 whole_globe) = - 2147483649
   \<and> tileY scheme_2x1 (tile_at 31 0 0 whole_globe) \<noteq>
       numberOfLevelZeroTilesY scheme_2x1 * 2 ^ tile_level (tile_at 31 0 0 whole_globe)
       - tile_y (tile_at 31 0 0 whole_globe) - 1"
  by (simp add: tile_at_def scheme_2x1_def tileY_def tilesInYDirection_def shl32_def)

text \<open>
  C4, amended. On a scheme with a positive level-zero tile count in Y, at a level where
  the tile count in Y is below \<open>2^31\<close>, \<open>tilesInYDirection\<close> is the level-zero count times
  \<open>2^level\<close>, \<open>tileY = tilesInYDirection - tile.y - 1\<close>, and the south and north bounds
  of the request are \<open>-PI/2 + yDelta * tileY\<close> and \<open>-PI/2 + yDelta * (tileY + 1)\<close>.
\<close>

theorem tileY_inverts_y:
  assumes "0 < numberOfLevelZeroTilesY s"
    and "numberOfLevelZeroTilesY s * 2 ^ tile_level t < 2 ^ 31"
  shows "tilesInYDirection s t = numberOfLevelZeroTilesY s * 2 ^ tile_level t
    \<and> tileY s t = numberOfLevelZeroTilesY s * 2 ^ tile_level t - tile_y t - 1
    \<and> yStart s t = jadd (Fin (- PI_OVER_TWO))
         (jmul (jdiv (Fin PI) (num (numberOfLevelZeroTilesY s * 2 ^ tile_level t)))
               (num (numberOfLevelZeroTilesY s * 2 ^ tile_level t - tile_y t - 1)))
    \<and> yStop s t = jadd (Fin (- PI_OVER_TWO))
         (jmul (jdiv (Fin PI) (num (numberOfLevelZeroTilesY s * 2 ^ tile_level t)))
               (num (numberOfLevelZeroTilesY s * 2 ^ tile_level t - tile_y t - 1 + 1)))"
proof -
  have "tilesInYDirection s t = numberOfLevelZeroTilesY s * 2 ^ tile_level t"
    unfolding tilesInYDirection_def by (rule shl32_exact [OF assms])
  then show ?thesis
    by (simp add: tileY_def yStart_def yStop_def yDelta_def)
qed

theorem tileY_inverts_y_witness:
  "tilesInYDirection scheme_2x1 (tile_at 2 1 0 whole_globe) = 4
   \<and> tileY scheme_2x1 (tile_at 2 1 0 whole_globe) = 3
   \<and> yStart scheme_2x1 (tile_at 2 1 0 whole_globe) = Fin (PI / 4)
   \<and> yStop scheme_2x1 (tile_at 2 1 0 whole_globe) = Fin PI_OVER_TWO"
proof -
  let ?t = "tile_at 2 1 0 whole_globe"
  have n: "numberOfLevelZeroTilesY scheme_2x1 * 2 ^ tile_level ?t = 4" "tile_y ?t = 0"
    by (simp_all add: scheme_2x1_def tile_at_def)
  have m: "(4::int) - 0 - 1 = 3" "(3::int) + 1 = 4" by simp_all
  have "0 < numberOfLevelZeroTilesY scheme_2x1"
    "numberOfLevelZeroTilesY scheme_2x1 * 2 ^ tile_level ?t < 2 ^ 31"
    by (simp_all add: scheme_2x1_def tile_at_def)
  from tileY_inverts_y [OF this] show ?thesis
    by (simp only: n m quarter_steps)
qed

section \<open>The plane geometry\<close>

text \<open>
  C6. For every provider, context, tile and projection, \<open>createTilePlaneGeometry\<close>
  throws the error \<open>Not supported yet.\<close> at once and leaves the tile as it was.
\<close>

theorem createTilePlaneGeometry_throws:
  "createTilePlaneGeometry this context tile proj =
     (Inl (DeveloperError ''Not supported yet.''), tile)"
  by (simp add: createTilePlaneGeometry_def)

section \<open>Construction\<close>

text \<open>
  C7. The constructor throws \<open>description.url is required.\<close> exactly when no description
  is passed or the description has no \<open>url\<close>; it returns a provider exactly when the
  description has a \<open>url\<close>; it throws no other error.
\<close>

theorem constructor_requires_url:
  "(EsriImageServerTerrainProvider geographic arg =
      Inl (DeveloperError ''description.url is required.''))
     = (case arg of None \<Rightarrow> True | Some d \<Rightarrow> description_url d = None)
   \<and> (\<exists>this. EsriImageServerTerrainProvider geographic arg = Inr this)
     = (case arg of None \<Rightarrow> False | Some d \<Rightarrow> description_url d \<noteq> None)
   \<and> (\<forall>e. EsriImageServerTerrainProvider geographic arg = Inl e \<longrightarrow>
         e = DeveloperError ''description.url is required.'')"
  by (auto simp: EsriImageServerTerrainProvider_def defaultValue_def empty_description_def
      split: option.splits)

theorem constructor_requires_url_witness:
  "EsriImageServerTerrainProvider scheme_2x1 None =
      Inl (DeveloperError ''description.url is required.'')
   \<and> EsriImageServerTerrainProvider scheme_2x1 (Some empty_description) =
      Inl (DeveloperError ''description.url is required.'')
   \<and> (\<exists>this. EsriImageServerTerrainProvider scheme_2x1 (Some scenario1) = Inr this)"
proof -
  have 1: "EsriImageServerTerrainProvider scheme_2x1 None =
      Inl (DeveloperError ''description.url is required.'')"
    using constructor_requires_url [of scheme_2x1 None, THEN conjunct1] by simp
  have 2: "EsriImageServerTerrainProvider scheme_2x1 (Some empty_description) =
      Inl (DeveloperError ''description.url is required.'')"
    using constructor_requires_url [of scheme_2x1 "Some empty_description", THEN conjunct1]
    by (simp add: empty_description_def)
  have 3: "\<exists>this. EsriImageServerTerrainProvider scheme_2x1 (Some scenario1) = Inr this"
    using constructor_requires_url
      [of scheme_2x1 "Some scenario1", THEN conjunct2, THEN conjunct1]
    by (simp add: scenario1_def)
  from 1 2 3 show ?thesis by blast
qed

section \<open>The desired granularity\<close>

text \<open>
  C8. \<open>computeDesiredGranularity\<close> returns the scheme's maximum geometric error of the
  tile's level divided by the x radius of the ellipsoid: the double nearest to that
  quotient when the radius is not zero. The result does not depend on the tile's x, y or
  extent.
\<close>

theorem computeDesiredGranularity_value:
  "computeDesiredGranularity scheme tile =
     jdiv (Fin (getLevelMaximumGeometricError scheme (tile_level tile)))
          (Fin (c3_x (getRadii (ellipsoid scheme))))
   \<and> (c3_x (getRadii (ellipsoid scheme)) \<noteq> 0 \<longrightarrow>
        computeDesiredGranularity scheme tile =
          rounded (getLevelMaximumGeometricError scheme (tile_level tile)
               / c3_x (getRadii (ellipsoid scheme))))
   \<and> computeDesiredGranularity scheme (tile\<lparr>tile_x := x', tile_y := y', tile_extent := e\<rparr>) =
       computeDesiredGranularity scheme tile"
  by (simp add: computeDesiredGranularity_def)

theorem computeDesiredGranularity_value_witness:
  "computeDesiredGranularity scheme_2x1 (tile_at 3 1 0 whole_globe)
     = Fin (7230459330722103 / 2 ^ 63)"
proof -
  have "c3_x (getRadii (ellipsoid scheme_2x1)) \<noteq> 0" by (simp add: scheme_2x1_def wgs84_def)
  with computeDesiredGranularity_value [of scheme_2x1 "tile_at 3 1 0 whole_globe"]
  have "computeDesiredGranularity scheme_2x1 (tile_at 3 1 0 whole_globe) =
      rounded (getLevelMaximumGeometricError scheme_2x1 (tile_level (tile_at 3 1 0 whole_globe))
               / c3_x (getRadii (ellipsoid scheme_2x1)))"
    by blast
  also have "getLevelMaximumGeometricError scheme_2x1 (tile_level (tile_at 3 1 0 whole_globe))
               / c3_x (getRadii (ellipsoid scheme_2x1)) = 5000 / 6378137"
    by (simp add: scheme_2x1_def tile_at_def wgs84_def halving_error_def)
  finally show ?thesis by (simp only: granularity_level3)
qed

text \<open>
  C9, as stated, fails: nothing in the function looks at the sign of the radius. With the
  halving error budget and an x radius of \<open>-1\<close> the granularity is \<open>-1250\<close> at level 5,
  above the \<open>-10000\<close> of level 2; with a budget of 1 at level 0 and 0 above, and an x
  radius of \<open>0\<close>, the granularity is \<open>Infinity\<close> at level 0 and \<open>NaN\<close> at level 1, and no
  comparison with \<open>NaN\<close> holds.
\<close>

theorem computeDesiredGranularity_radius_counterexample:
  "halving_error 5 \<le> halving_error 2
   \<and> computeDesiredGranularity scheme_negative_radius (tile_at 5 0 0 whole_globe) = Fin (- 1250)
   \<and> computeDesiredGranularity scheme_negative_radius (tile_at 2 0 0 whole_globe)
       = Fin (- 10000)
   \<and> \<not> jle (computeDesiredGranularity scheme_negative_radius (tile_at 5 0 0 whole_globe))
            (computeDesiredGranularity scheme_negative_radius (tile_at 2 0 0 whole_globe))
   \<and> step_error 1 \<le> step_error 0
   \<and> computeDesiredGranularity scheme_zero_radius (tile_at 0 0 0 whole_globe) = PosInf
   \<and> computeDesiredGranularity scheme_zero_radius (tile_at 1 0 0 whole_globe) = NaN
   \<and> \<not> jle (computeDesiredGranularity scheme_zero_radius (tile_at 1 0 0 whole_globe))
            (computeDesiredGranularity scheme_zero_radius (tile_at 0 0 0 whole_globe))"
  using rounded_int [of "- 1250"] rounded_int [of "- 10000"]
  by (simp add: computeDesiredGranularity_def scheme_negative_radius_def
      scheme_zero_radius_def tile_at_def halving_error_def)

text \<open>
  C9, amended. On a scheme whose maximum geometric error does not increase with the level,
  over an ellipsoid with a positive x radius, the granularity of a tile at level \<open>l2\<close> is
  at most that of a tile at level \<open>l1 \<le> l2\<close>.
\<close>

theorem computeDesiredGranularity_mono:
  assumes "0 < c3_x (getRadii (ellipsoid scheme))"
    and "\<forall>a b. a \<le> b \<longrightarrow>
           getLevelMaximumGeometricError scheme b \<le> getLevelMaximumGeometricError scheme a"
    and "tile_level t1 \<le> tile_level t2"
  shows "jle (computeDesiredGranularity scheme t2) (computeDesiredGranularity scheme t1)"
proof -
  let ?r = "c3_x (getRadii (ellipsoid scheme))"
  have "getLevelMaximumGeometricError scheme (tile_level t2)
          \<le> getLevelMaximumGeometricError scheme (tile_level t1)"
    using assms(2,3) by blast
  then have "getLevelMaximumGeometricError scheme (tile_level t2) / ?r
          \<le> getLevelMaximumGeometricError scheme (tile_level t1) / ?r"
    using assms(1) by (simp add: divide_right_mono)
  then have "jle (rounded (getLevelMaximumGeometricError scheme (tile_level t2) / ?r))
                 (rounded (getLevelMaximumGeometricError scheme (tile_level t1) / ?r))"
    by (rule rounded_mono)
  then show ?thesis
    using assms(1) by (simp add: computeDesiredGranularity_def)
qed

theorem computeDesiredGranularity_mono_witness:
  "jle (computeDesiredGranularity scheme_2x1 (tile_at 5 0 0 whole_globe))
       (computeDesiredGranularity scheme_2x1 (tile_at 2 0 0 whole_globe))"
  using computeDesiredGranularity_mono
    [of scheme_2x1 "tile_at 2 0 0 whole_globe" "tile_at 5 0 0 whole_globe"]
    halving_error_antimono
  by (simp add: scheme_2x1_def tile_at_def wgs84_def)

end
